theory Spec2Isabelle
  imports Main "HOL-Library.Word" "HOL-Library.Log_Nat" "HOL-Library.Code_Target_Numeral"
begin

unbundle bit_operations_syntax

section \<open>The framebuffer (fb.h, weatherstar.c)\<close>

text \<open>
  The program draws into the global array \<^verbatim>\<open>static rgb_t fb[FB_H][FB_W]\<close>.
  C \<^verbatim>\<open>int\<close> values are modelled by mathematical integers: the development covers the
  executions in which no signed overflow occurs (signed overflow is undefined in C).
\<close>

abbreviation FB_W :: int where "FB_W \<equiv> 640"
abbreviation FB_H :: int where "FB_H \<equiv> 400"

text \<open>\<^verbatim>\<open>typedef struct { uint8_t r, g, b; } rgb_t;\<close>\<close>

record rgb_t =
  cr :: "8 word"
  cg :: "8 word"
  cb :: "8 word"

definition rgb :: "8 word \<Rightarrow> 8 word \<Rightarrow> 8 word \<Rightarrow> rgb_t" where
  "rgb x y z = \<lparr>cr = x, cg = y, cb = z\<rparr>"

definition COL_HEADER :: rgb_t where "COL_HEADER = rgb 40 70 170"
definition COL_ACCENT :: rgb_t where "COL_ACCENT = rgb 60 120 210"
definition COL_GOLD :: rgb_t where "COL_GOLD = rgb 255 200 50"
definition COL_WHITE :: rgb_t where "COL_WHITE = rgb 255 255 255"
definition COL_LTGRAY :: rgb_t where "COL_LTGRAY = rgb 180 190 210"
definition COL_YELLOW :: rgb_t where "COL_YELLOW = rgb 255 255 100"
definition COL_CYAN :: rgb_t where "COL_CYAN = rgb 100 220 255"
definition COL_GREEN :: rgb_t where "COL_GREEN = rgb 80 220 120"
definition COL_ORANGE :: rgb_t where "COL_ORANGE = rgb 255 160 50"
definition COL_GRADTOP :: rgb_t where "COL_GRADTOP = rgb 20 40 120"
definition COL_GRADBOT :: rgb_t where "COL_GRADBOT = rgb 5 15 60"
definition COL_SEP :: rgb_t where "COL_SEP = rgb 50 80 160"
definition COL_TEMPHI :: rgb_t where "COL_TEMPHI = rgb 255 100 80"
definition COL_TEMPLO :: rgb_t where "COL_TEMPLO = rgb 100 180 255"

text \<open>
  The state of the framebuffer. \<open>Fb f\<close> is a framebuffer whose pixel \<^verbatim>\<open>fb[y][x]\<close> is
  \<open>f y x\<close> (only the values at \<open>0 \<le> y < FB_H\<close>, \<open>0 \<le> x < FB_W\<close> are pixels of the array).
  \<open>Fault y x\<close> records that the program has executed a store \<^verbatim>\<open>fb[y][x] = ...\<close> with an
  index outside the array; C gives no meaning to what follows, so a fault is final.
\<close>

datatype fbstate = Fb "int \<Rightarrow> int \<Rightarrow> rgb_t" | Fault int int

definition in_grid :: "int \<Rightarrow> int \<Rightarrow> bool" where
  "in_grid y x \<longleftrightarrow> 0 \<le> y \<and> y < FB_H \<and> 0 \<le> x \<and> x < FB_W"

text \<open>The raw assignment \<^verbatim>\<open>fb[y][x] = c\<close>, with no check of its own.\<close>

definition fb_store :: "int \<Rightarrow> int \<Rightarrow> rgb_t \<Rightarrow> fbstate \<Rightarrow> fbstate" where
  "fb_store y x c s =
     (case s of
        Fault fy fx \<Rightarrow> Fault fy fx
      | Fb f \<Rightarrow> if in_grid y x then Fb (f(y := (f y)(x := c))) else Fault y x)"

text \<open>Reading pixel (x, y) of a state: \<open>None\<close> outside the grid and after a fault.\<close>

definition pix :: "fbstate \<Rightarrow> int \<Rightarrow> int \<Rightarrow> rgb_t option" where
  "pix s x y = (case s of Fault _ _ \<Rightarrow> None | Fb f \<Rightarrow> if in_grid y x then Some (f y x) else None)"

definition faulted :: "fbstate \<Rightarrow> bool" where
  "faulted s = (case s of Fault _ _ \<Rightarrow> True | Fb _ \<Rightarrow> False)"

text \<open>The loop \<^verbatim>\<open>for (i = lo; i < n; i++) body(i)\<close> over a state.\<close>

function for_loop :: "int \<Rightarrow> int \<Rightarrow> (int \<Rightarrow> 's \<Rightarrow> 's) \<Rightarrow> 's \<Rightarrow> 's" where
  "for_loop i n body s = (if i < n then for_loop (i + 1) n body (body i s) else s)"
  by pat_completeness auto
termination
  by (relation "measure (\<lambda>(i, n, body, s). nat (n - i))") auto

declare for_loop.simps [simp del]

subsection \<open>Primitive drawing\<close>

text \<open>
  \<^verbatim>\<open>for (int y = y0; y < y0 + h && y < FB_H; y++)
    for (int x = x0; x < x0 + w && x < FB_W; x++)
      if (x >= 0 && y >= 0) fb[y][x] = c;\<close>
  The two upper bounds of each loop are its \<open>min\<close>.
\<close>

definition fb_rect :: "int \<Rightarrow> int \<Rightarrow> int \<Rightarrow> int \<Rightarrow> rgb_t \<Rightarrow> fbstate \<Rightarrow> fbstate" where
  "fb_rect x0 y0 w h c =
     for_loop y0 (min (y0 + h) FB_H) (\<lambda>y.
       for_loop x0 (min (x0 + w) FB_W) (\<lambda>x s.
         if x \<ge> 0 \<and> y \<ge> 0 then fb_store y x c s else s))"

text \<open>
  \<^verbatim>\<open>if (y < 0 || y >= FB_H) return;
  for (int x = x0; x <= x1 && x < FB_W; x++) if (x >= 0) fb[y][x] = c;\<close>
\<close>

definition fb_hline :: "int \<Rightarrow> int \<Rightarrow> int \<Rightarrow> rgb_t \<Rightarrow> fbstate \<Rightarrow> fbstate" where
  "fb_hline x0 x1 y c s =
     (if y < 0 \<or> y \<ge> FB_H then s
      else for_loop x0 (min (x1 + 1) FB_W) (\<lambda>x s. if x \<ge> 0 then fb_store y x c s else s) s)"

section \<open>The 5x7 bitmap font (weatherstar.c)\<close>

definition font5x7 :: "8 word list list" where
  "font5x7 = [
  [0x00, 0x00, 0x00, 0x00, 0x00, 0x00, 0x00],
  [0x04, 0x04, 0x04, 0x04, 0x04, 0x00, 0x04],
  [0x0A, 0x0A, 0x00, 0x00, 0x00, 0x00, 0x00],
  [0x0A, 0x1F, 0x0A, 0x0A, 0x1F, 0x0A, 0x00],
  [0x04, 0x0F, 0x14, 0x0E, 0x05, 0x1E, 0x04],
  [0x18, 0x19, 0x02, 0x04, 0x08, 0x13, 0x03],
  [0x08, 0x14, 0x14, 0x08, 0x15, 0x12, 0x0D],
  [0x04, 0x04, 0x00, 0x00, 0x00, 0x00, 0x00],
  [0x02, 0x04, 0x08, 0x08, 0x08, 0x04, 0x02],
  [0x08, 0x04, 0x02, 0x02, 0x02, 0x04, 0x08],
  [0x00, 0x04, 0x15, 0x0E, 0x15, 0x04, 0x00],
  [0x00, 0x04, 0x04, 0x1F, 0x04, 0x04, 0x00],
  [0x00, 0x00, 0x00, 0x00, 0x00, 0x04, 0x08],
  [0x00, 0x00, 0x00, 0x1F, 0x00, 0x00, 0x00],
  [0x00, 0x00, 0x00, 0x00, 0x00, 0x00, 0x04],
  [0x01, 0x01, 0x02, 0x04, 0x08, 0x10, 0x10],
  [0x0E, 0x11, 0x13, 0x15, 0x19, 0x11, 0x0E],
  [0x04, 0x0C, 0x04, 0x04, 0x04, 0x04, 0x0E],
  [0x0E, 0x11, 0x01, 0x06, 0x08, 0x10, 0x1F],
  [0x0E, 0x11, 0x01, 0x06, 0x01, 0x11, 0x0E],
  [0x02, 0x06, 0x0A, 0x12, 0x1F, 0x02, 0x02],
  [0x1F, 0x10, 0x1E, 0x01, 0x01, 0x11, 0x0E],
  [0x06, 0x08, 0x10, 0x1E, 0x11, 0x11, 0x0E],
  [0x1F, 0x01, 0x02, 0x04, 0x08, 0x08, 0x08],
  [0x0E, 0x11, 0x11, 0x0E, 0x11, 0x11, 0x0E],
  [0x0E, 0x11, 0x11, 0x0F, 0x01, 0x02, 0x0C],
  [0x00, 0x00, 0x04, 0x00, 0x00, 0x04, 0x00],
  [0x00, 0x00, 0x04, 0x00, 0x00, 0x04, 0x08],
  [0x02, 0x04, 0x08, 0x10, 0x08, 0x04, 0x02],
  [0x00, 0x00, 0x1F, 0x00, 0x1F, 0x00, 0x00],
  [0x08, 0x04, 0x02, 0x01, 0x02, 0x04, 0x08],
  [0x0E, 0x11, 0x01, 0x02, 0x04, 0x00, 0x04],
  [0x0E, 0x11, 0x17, 0x15, 0x17, 0x10, 0x0E],
  [0x0E, 0x11, 0x11, 0x1F, 0x11, 0x11, 0x11],
  [0x1E, 0x11, 0x11, 0x1E, 0x11, 0x11, 0x1E],
  [0x0E, 0x11, 0x10, 0x10, 0x10, 0x11, 0x0E],
  [0x1E, 0x11, 0x11, 0x11, 0x11, 0x11, 0x1E],
  [0x1F, 0x10, 0x10, 0x1E, 0x10, 0x10, 0x1F],
  [0x1F, 0x10, 0x10, 0x1E, 0x10, 0x10, 0x10],
  [0x0E, 0x11, 0x10, 0x17, 0x11, 0x11, 0x0F],
  [0x11, 0x11, 0x11, 0x1F, 0x11, 0x11, 0x11],
  [0x0E, 0x04, 0x04, 0x04, 0x04, 0x04, 0x0E],
  [0x07, 0x02, 0x02, 0x02, 0x02, 0x12, 0x0C],
  [0x11, 0x12, 0x14, 0x18, 0x14, 0x12, 0x11],
  [0x10, 0x10, 0x10, 0x10, 0x10, 0x10, 0x1F],
  [0x11, 0x1B, 0x15, 0x15, 0x11, 0x11, 0x11],
  [0x11, 0x19, 0x15, 0x13, 0x11, 0x11, 0x11],
  [0x0E, 0x11, 0x11, 0x11, 0x11, 0x11, 0x0E],
  [0x1E, 0x11, 0x11, 0x1E, 0x10, 0x10, 0x10],
  [0x0E, 0x11, 0x11, 0x11, 0x15, 0x12, 0x0D],
  [0x1E, 0x11, 0x11, 0x1E, 0x14, 0x12, 0x11],
  [0x0E, 0x11, 0x10, 0x0E, 0x01, 0x11, 0x0E],
  [0x1F, 0x04, 0x04, 0x04, 0x04, 0x04, 0x04],
  [0x11, 0x11, 0x11, 0x11, 0x11, 0x11, 0x0E],
  [0x11, 0x11, 0x11, 0x11, 0x0A, 0x0A, 0x04],
  [0x11, 0x11, 0x11, 0x15, 0x15, 0x1B, 0x11],
  [0x11, 0x11, 0x0A, 0x04, 0x0A, 0x11, 0x11],
  [0x11, 0x11, 0x0A, 0x04, 0x04, 0x04, 0x04],
  [0x1F, 0x01, 0x02, 0x04, 0x08, 0x10, 0x1F],
  [0x0E, 0x08, 0x08, 0x08, 0x08, 0x08, 0x0E],
  [0x10, 0x10, 0x08, 0x04, 0x02, 0x01, 0x01],
  [0x0E, 0x02, 0x02, 0x02, 0x02, 0x02, 0x0E],
  [0x04, 0x0A, 0x11, 0x00, 0x00, 0x00, 0x00],
  [0x00, 0x00, 0x00, 0x00, 0x00, 0x00, 0x1F],
  [0x08, 0x04, 0x00, 0x00, 0x00, 0x00, 0x00],
  [0x00, 0x00, 0x0E, 0x01, 0x0F, 0x11, 0x0F],
  [0x10, 0x10, 0x1E, 0x11, 0x11, 0x11, 0x1E],
  [0x00, 0x00, 0x0E, 0x11, 0x10, 0x11, 0x0E],
  [0x01, 0x01, 0x0F, 0x11, 0x11, 0x11, 0x0F],
  [0x00, 0x00, 0x0E, 0x11, 0x1F, 0x10, 0x0E],
  [0x06, 0x08, 0x1E, 0x08, 0x08, 0x08, 0x08],
  [0x00, 0x00, 0x0F, 0x11, 0x0F, 0x01, 0x0E],
  [0x10, 0x10, 0x1E, 0x11, 0x11, 0x11, 0x11],
  [0x04, 0x00, 0x0C, 0x04, 0x04, 0x04, 0x0E],
  [0x02, 0x00, 0x06, 0x02, 0x02, 0x12, 0x0C],
  [0x10, 0x10, 0x12, 0x14, 0x18, 0x14, 0x12],
  [0x0C, 0x04, 0x04, 0x04, 0x04, 0x04, 0x0E],
  [0x00, 0x00, 0x1A, 0x15, 0x15, 0x15, 0x15],
  [0x00, 0x00, 0x1E, 0x11, 0x11, 0x11, 0x11],
  [0x00, 0x00, 0x0E, 0x11, 0x11, 0x11, 0x0E],
  [0x00, 0x00, 0x1E, 0x11, 0x1E, 0x10, 0x10],
  [0x00, 0x00, 0x0F, 0x11, 0x0F, 0x01, 0x01],
  [0x00, 0x00, 0x16, 0x19, 0x10, 0x10, 0x10],
  [0x00, 0x00, 0x0F, 0x10, 0x0E, 0x01, 0x1E],
  [0x08, 0x08, 0x1E, 0x08, 0x08, 0x09, 0x06],
  [0x00, 0x00, 0x11, 0x11, 0x11, 0x11, 0x0F],
  [0x00, 0x00, 0x11, 0x11, 0x0A, 0x0A, 0x04],
  [0x00, 0x00, 0x11, 0x11, 0x15, 0x15, 0x0A],
  [0x00, 0x00, 0x11, 0x0A, 0x04, 0x0A, 0x11],
  [0x00, 0x00, 0x11, 0x11, 0x0F, 0x01, 0x0E],
  [0x00, 0x00, 0x1F, 0x02, 0x04, 0x08, 0x1F],
  [0x02, 0x04, 0x04, 0x08, 0x04, 0x04, 0x02],
  [0x04, 0x04, 0x04, 0x04, 0x04, 0x04, 0x04],
  [0x08, 0x04, 0x04, 0x02, 0x04, 0x04, 0x08],
  [0x00, 0x00, 0x08, 0x15, 0x02, 0x00, 0x00]
  ]"

text \<open>
  The value of a C \<^verbatim>\<open>char\<close> as an \<^verbatim>\<open>int\<close> (\<^verbatim>\<open>char\<close> is signed on the
  platforms the program is built for; bytes from 128 on are negative).
\<close>

definition char_val :: "char \<Rightarrow> int" where
  "char_val ch = (let n = of_char ch in if n \<ge> 128 then n - 256 else n)"

text \<open>\<^verbatim>\<open>int idx = ch - 32; if (idx < 0 || idx > 94) idx = 0;\<close>\<close>

definition glyph_index :: "char \<Rightarrow> nat" where
  "glyph_index ch = (let idx = char_val ch - 32 in if idx < 0 \<or> idx > 94 then 0 else nat idx)"

text \<open>\<^verbatim>\<open>font5x7[idx][row] & (0x10 >> col)\<close>\<close>

definition glyph_bit :: "char \<Rightarrow> int \<Rightarrow> int \<Rightarrow> bool" where
  "glyph_bit ch row col \<longleftrightarrow>
     ((font5x7 ! glyph_index ch) ! nat row) AND drop_bit (nat col) (0x10 :: 8 word) \<noteq> 0"

text \<open>
  The scaled block of one set bit, shared by \<^verbatim>\<open>fb_char\<close> and \<^verbatim>\<open>fb_degree\<close>:
  \<^verbatim>\<open>for (sy = 0; sy < scale; sy++) for (sx = 0; sx < scale; sx++) {
    int fx = px + col * scale + sx; int fy = py + row * scale + sy;
    if (fx >= 0 && fx < FB_W && fy >= 0 && fy < FB_H) fb[fy][fx] = fg; }\<close>
\<close>

definition blit_block :: "int \<Rightarrow> int \<Rightarrow> int \<Rightarrow> int \<Rightarrow> rgb_t \<Rightarrow> int \<Rightarrow> fbstate \<Rightarrow> fbstate" where
  "blit_block px py row col fg scale =
     for_loop 0 scale (\<lambda>sy.
       for_loop 0 scale (\<lambda>sx s.
         let fx = px + col * scale + sx; fy = py + row * scale + sy
         in if fx \<ge> 0 \<and> fx < FB_W \<and> fy \<ge> 0 \<and> fy < FB_H then fb_store fy fx fg s else s))"

definition fb_char :: "int \<Rightarrow> int \<Rightarrow> char \<Rightarrow> rgb_t \<Rightarrow> int \<Rightarrow> fbstate \<Rightarrow> fbstate" where
  "fb_char px py ch fg scale =
     for_loop 0 7 (\<lambda>row.
       for_loop 0 5 (\<lambda>col s.
         if glyph_bit ch row col then blit_block px py row col fg scale s else s))"

text \<open>
  A C string is the bytes before the first NUL.
  \<^verbatim>\<open>int spacing = 6 * scale;
  for (; *s; s++, px += spacing) fb_char(px, py, *s, fg, scale);\<close>
  The loop is modelled with its local variable \<^verbatim>\<open>px\<close>: \<open>fb_string_loop\<close> returns the value
  of \<^verbatim>\<open>px\<close> at the exit of the loop together with the framebuffer.
\<close>

fun fb_string_loop :: "int \<Rightarrow> int \<Rightarrow> string \<Rightarrow> rgb_t \<Rightarrow> int \<Rightarrow> fbstate \<Rightarrow> int \<times> fbstate" where
  "fb_string_loop px py [] fg scale s = (px, s)"
| "fb_string_loop px py (ch # rest) fg scale s =
     (if ch = CHR 0x00 then (px, s)
      else fb_string_loop (px + 6 * scale) py rest fg scale (fb_char px py ch fg scale s))"

definition fb_string :: "int \<Rightarrow> int \<Rightarrow> string \<Rightarrow> rgb_t \<Rightarrow> int \<Rightarrow> fbstate \<Rightarrow> fbstate" where
  "fb_string px py s fg scale st = snd (fb_string_loop px py s fg scale st)"

fun strlen :: "string \<Rightarrow> nat" where
  "strlen [] = 0"
| "strlen (ch # rest) = (if ch = CHR 0x00 then 0 else Suc (strlen rest))"

text \<open>
  A C \<^verbatim>\<open>int\<close> has 32 bits. \<open>int32 v\<close> is the \<^verbatim>\<open>int\<close> that holds the low 32 bits of \<open>v\<close> in
  two's complement: the value of the conversion \<^verbatim>\<open>(int)v\<close>, and what the multiplication
  of the machine leaves when the product does not fit (an overflow that C leaves undefined).
\<close>

definition int32 :: "int \<Rightarrow> int" where
  "int32 v = (v + 2147483648) mod 4294967296 - 2147483648"

text \<open>\<^verbatim>\<open>return (int)strlen(s) * 6 * scale;\<close>\<close>

definition fb_string_width :: "string \<Rightarrow> int \<Rightarrow> int" where
  "fb_string_width s scale = int32 (int32 (int32 (int (strlen s)) * 6) * scale)"

text \<open>C integer division truncates towards zero.\<close>

definition c_div :: "int \<Rightarrow> int \<Rightarrow> int" where
  "c_div a b = sgn a * sgn b * (\<bar>a\<bar> div \<bar>b\<bar>)"

definition fb_string_centered :: "int \<Rightarrow> string \<Rightarrow> rgb_t \<Rightarrow> int \<Rightarrow> fbstate \<Rightarrow> fbstate" where
  "fb_string_centered y s fg scale =
     (let w = fb_string_width s scale in fb_string (c_div (FB_W - w) 2) y s fg scale)"

text \<open>
  \<^verbatim>\<open>static const uint8_t deg[3] = {0x02, 0x05, 0x02};\<close> and the test
  \<^verbatim>\<open>deg[row] & (0x04 >> col)\<close> of \<^verbatim>\<open>fb_degree\<close>.
\<close>

definition deg :: "8 word list" where
  "deg = [0x02, 0x05, 0x02]"

definition deg_bit :: "int \<Rightarrow> int \<Rightarrow> bool" where
  "deg_bit row col \<longleftrightarrow> (deg ! nat row) AND drop_bit (nat col) (0x04 :: 8 word) \<noteq> 0"

definition fb_degree :: "int \<Rightarrow> int \<Rightarrow> rgb_t \<Rightarrow> int \<Rightarrow> fbstate \<Rightarrow> fbstate" where
  "fb_degree px py fg scale =
     for_loop 0 3 (\<lambda>row.
       for_loop 0 3 (\<lambda>col s.
         if deg_bit row col then blit_block px py row col fg scale s else s))"

section \<open>Single-precision arithmetic\<close>

text \<open>
  The gradients and the corner test of weatherstar.c compute in C \<^verbatim>\<open>float\<close>. A
  \<^verbatim>\<open>float\<close> value is modelled by the rational number it denotes, and every operation
  rounds its exact result to the nearest value with a 24-bit significand, ties to even
  (IEEE 754 binary32, evaluated in single precision). Overflow, subnormal numbers and NaN
  are not modelled: the values of this program lie far inside the normal range.
\<close>

text \<open>\<open>ilog2 x\<close> is the integer \<open>e\<close> with \<open>2^e \<le> x < 2^(e+1)\<close>, for \<open>x > 0\<close>.\<close>

definition ilog2 :: "rat \<Rightarrow> int" where
  "ilog2 x = (let (p, q) = quotient_of x;
                  e = int (floorlog 2 (nat p)) - int (floorlog 2 (nat q))
              in if 2 powi e \<le> x then e else e - 1)"

definition round_even :: "rat \<Rightarrow> int" where
  "round_even x = (let f = \<lfloor>x\<rfloor>; d = x - of_int f
                   in if d < 1/2 then f else if 1/2 < d then f + 1
                      else if even f then f else f + 1)"

definition f32 :: "rat \<Rightarrow> rat" where
  "f32 x = (if x = 0 then 0
            else let q = 2 powi (ilog2 \<bar>x\<bar> - 23) in of_int (round_even (x / q)) * q)"

definition float_of_int :: "int \<Rightarrow> rat" where "float_of_int n = f32 (of_int n)"
definition fadd :: "rat \<Rightarrow> rat \<Rightarrow> rat" where "fadd x y = f32 (x + y)"
definition fmul :: "rat \<Rightarrow> rat \<Rightarrow> rat" where "fmul x y = f32 (x * y)"
definition fdiv :: "rat \<Rightarrow> rat \<Rightarrow> rat" where "fdiv x y = f32 (x / y)"

text \<open>The conversion \<^verbatim>\<open>(int)x\<close> of a float truncates towards zero.\<close>

definition trunc0 :: "rat \<Rightarrow> int" where
  "trunc0 x = (if x \<ge> 0 then \<lfloor>x\<rfloor> else - \<lfloor>- x\<rfloor>)"

text \<open>The conversion \<^verbatim>\<open>(uint8_t)x\<close> of a float, and the assignment of an int to a
  \<^verbatim>\<open>uint8_t\<close> field, keep the low eight bits of the integer.\<close>

definition u8_of_float :: "rat \<Rightarrow> 8 word" where
  "u8_of_float x = word_of_int (trunc0 x)"

text \<open>
  \<^verbatim>\<open>sqrtf\<close> is correctly rounded in IEEE 754: the nearest float to the square root.
  It is computed here from the integer square root of the scaled argument.
\<close>

fun isqrt :: "nat \<Rightarrow> nat" where
  "isqrt n = (if n < 2 then n
              else let r = 2 * isqrt (n div 4) in if (r + 1) * (r + 1) \<le> n then r + 1 else r)"

declare isqrt.simps [simp del]

definition sqrtf :: "rat \<Rightarrow> rat" where
  "sqrtf x = (if x \<le> 0 then 0
              else let e = ilog2 x div 2; q = 2 powi (e - 23); z = x / (q * q);
                       s = int (isqrt (nat \<lfloor>z\<rfloor>)); h = (of_int s + 1/2) * (of_int s + 1/2)
                   in of_int (if z < h then s else if h < z then s + 1
                              else if even s then s else s + 1) * q)"

text \<open>
  \<^verbatim>\<open>cosf\<close> and \<^verbatim>\<open>sinf\<close> come from the C library, which does not fix their results
  to the last bit; the drawing code takes them as parameters.
\<close>

record libm =
  cosf :: "rat \<Rightarrow> rat"
  sinf :: "rat \<Rightarrow> rat"

section \<open>Gradients (fb.h, weatherstar.c)\<close>

text \<open>
  \<^verbatim>\<open>(uint8_t)(top.r + (bot.r - top.r) * t)\<close>, the channel expression of
  \<^verbatim>\<open>fb_bg_at\<close> (fb.h) and of \<^verbatim>\<open>fb_rect_grad_v\<close> (both files): the subtraction is
  done in \<^verbatim>\<open>int\<close>, the product and the sum in \<^verbatim>\<open>float\<close>.
\<close>

definition lerp_u8 :: "8 word \<Rightarrow> 8 word \<Rightarrow> rat \<Rightarrow> 8 word" where
  "lerp_u8 a b t =
     u8_of_float (fadd (float_of_int (uint a)) (fmul (float_of_int (uint b - uint a)) t))"

text \<open>
  \<^verbatim>\<open>COL_GRADTOP.r + (int)((COL_GRADBOT.r - COL_GRADTOP.r) * t)\<close>, the channel expression
  of weatherstar.c's \<^verbatim>\<open>fb_clear\<close> and \<^verbatim>\<open>draw_rounded_rect\<close>: the product is
  truncated to \<^verbatim>\<open>int\<close> before the sum.
\<close>

definition lerp_int :: "8 word \<Rightarrow> 8 word \<Rightarrow> rat \<Rightarrow> 8 word" where
  "lerp_int a b t = word_of_int (uint a + trunc0 (fmul (float_of_int (uint b - uint a)) t))"

text \<open>fb.h: \<^verbatim>\<open>float t = (float)y / FB_H;\<close> and the three channels.\<close>

definition fb_bg_at :: "int \<Rightarrow> rgb_t" where
  "fb_bg_at y =
     (let t = fdiv (float_of_int y) (float_of_int FB_H)
      in rgb (lerp_u8 (cr COL_GRADTOP) (cr COL_GRADBOT) t)
             (lerp_u8 (cg COL_GRADTOP) (cg COL_GRADBOT) t)
             (lerp_u8 (cb COL_GRADTOP) (cb COL_GRADBOT) t))"

text \<open>fb.h: \<^verbatim>\<open>for (y = 0; y < FB_H; y++) { rgb_t c = fb_bg_at(y);
  for (x = 0; x < FB_W; x++) fb[y][x] = c; }\<close>\<close>

definition fb_clear :: "fbstate \<Rightarrow> fbstate" where
  "fb_clear =
     for_loop 0 FB_H (\<lambda>y s.
       let c = fb_bg_at y in for_loop 0 FB_W (\<lambda>x. fb_store y x c) s)"

text \<open>
  weatherstar.c writes the background colour of a row inline, in \<^verbatim>\<open>fb_clear\<close> and four
  times in \<^verbatim>\<open>draw_rounded_rect\<close>: \<^verbatim>\<open>float t = (float)y / FB_H;\<close> and three
  assignments to the channels of the pixel.
\<close>

definition bg_ws :: "int \<Rightarrow> rgb_t" where
  "bg_ws y =
     (let t = fdiv (float_of_int y) (float_of_int FB_H)
      in rgb (lerp_int (cr COL_GRADTOP) (cr COL_GRADBOT) t)
             (lerp_int (cg COL_GRADTOP) (cg COL_GRADBOT) t)
             (lerp_int (cb COL_GRADTOP) (cb COL_GRADBOT) t))"

definition fb_clear_ws :: "fbstate \<Rightarrow> fbstate" where
  "fb_clear_ws =
     for_loop 0 FB_H (\<lambda>y.
       for_loop 0 FB_W (\<lambda>x. fb_store y x (bg_ws y)))"

text \<open>\<^verbatim>\<open>float t = (h > 1) ? (float)(y - y0) / (h - 1) : 0;\<close>\<close>

definition grad_t :: "int \<Rightarrow> int \<Rightarrow> int \<Rightarrow> rat" where
  "grad_t y y0 h = (if h > 1 then fdiv (float_of_int (y - y0)) (float_of_int (h - 1)) else 0)"

definition grad_color :: "rgb_t \<Rightarrow> rgb_t \<Rightarrow> rat \<Rightarrow> rgb_t" where
  "grad_color ctop cbot t =
     rgb (lerp_u8 (cr ctop) (cr cbot) t) (lerp_u8 (cg ctop) (cg cbot) t)
         (lerp_u8 (cb ctop) (cb cbot) t)"

definition fb_rect_grad_v ::
  "int \<Rightarrow> int \<Rightarrow> int \<Rightarrow> int \<Rightarrow> rgb_t \<Rightarrow> rgb_t \<Rightarrow> fbstate \<Rightarrow> fbstate" where
  "fb_rect_grad_v x0 y0 w h ctop cbot =
     for_loop y0 (min (y0 + h) FB_H) (\<lambda>y s.
       let t = grad_t y y0 h; c = grad_color ctop cbot t
       in for_loop x0 (min (x0 + w) FB_W) (\<lambda>x s.
            if x \<ge> 0 \<and> y \<ge> 0 then fb_store y x c s else s) s)"

section \<open>Rounded rectangles\<close>

text \<open>
  The guarded store of one corner pixel:
  \<^verbatim>\<open>if (cx >= 0 && cx < FB_W && cy >= 0 && cy < FB_H) fb[cy][cx] = <background at cy>;\<close>
\<close>

definition knock_out :: "(int \<Rightarrow> rgb_t) \<Rightarrow> int \<times> int \<Rightarrow> fbstate \<Rightarrow> fbstate" where
  "knock_out bg p s =
     (case p of (cx, cy) \<Rightarrow>
        if cx \<ge> 0 \<and> cx < FB_W \<and> cy \<ge> 0 \<and> cy < FB_H then fb_store cy cx (bg cy) s else s)"

text \<open>The four corner pixels of offset (dx, dy), in the order of the source: top-left,
  top-right, bottom-left, bottom-right.\<close>

definition corners :: "int \<Rightarrow> int \<Rightarrow> int \<Rightarrow> int \<Rightarrow> int \<Rightarrow> int \<Rightarrow> (int \<times> int) list" where
  "corners x0 y0 w h dx dy =
     [(x0 + dx, y0 + dy), (x0 + w - 1 - dx, y0 + dy),
      (x0 + dx, y0 + h - 1 - dy), (x0 + w - 1 - dx, y0 + h - 1 - dy)]"

text \<open>
  fb.h: \<^verbatim>\<open>int r_sq = r * r; ... int dist_sq = (r-dx)*(r-dx) + (r-dy)*(r-dy);
  if (dist_sq <= r_sq) continue;\<close> and then the loop over the four corners. The squares
  and their sum are computed in \<^verbatim>\<open>int\<close>.
\<close>

definition draw_rounded_rect ::
  "int \<Rightarrow> int \<Rightarrow> int \<Rightarrow> int \<Rightarrow> int \<Rightarrow> rgb_t \<Rightarrow> fbstate \<Rightarrow> fbstate" where
  "draw_rounded_rect x0 y0 w h r fill s =
     (let r_sq = int32 (r * r) in
      for_loop 0 r (\<lambda>dy.
        for_loop 0 r (\<lambda>dx s.
          let dist_sq = int32 (int32 ((r - dx) * (r - dx)) + int32 ((r - dy) * (r - dy)))
          in if dist_sq \<le> r_sq then s
             else fold (knock_out fb_bg_at) (corners x0 y0 w h dx dy) s))
        (fb_rect x0 y0 w h fill s))"

text \<open>
  weatherstar.c: \<^verbatim>\<open>float dist = sqrtf((float)((r - dx) * (r - dx) + (r - dy) * (r - dy)));
  if (dist > r) { ... }\<close> with the four corners written out one after the other. The
  squares and their sum are computed in \<^verbatim>\<open>int\<close>; of a negative sum \<^verbatim>\<open>sqrtf\<close> gives a NaN,
  which is not greater than \<open>r\<close>, as the 0 of \<open>sqrtf\<close> here is not.
\<close>

definition draw_rounded_rect_ws ::
  "int \<Rightarrow> int \<Rightarrow> int \<Rightarrow> int \<Rightarrow> int \<Rightarrow> rgb_t \<Rightarrow> fbstate \<Rightarrow> fbstate" where
  "draw_rounded_rect_ws x0 y0 w h r fill s =
     for_loop 0 r (\<lambda>dy.
       for_loop 0 r (\<lambda>dx s.
         let dist = sqrtf (float_of_int
                      (int32 (int32 ((r - dx) * (r - dx)) + int32 ((r - dy) * (r - dy)))))
         in if dist > float_of_int r
            then fold (knock_out bg_ws) (corners x0 y0 w h dx dy) s
            else s))
       (fb_rect x0 y0 w h fill s)"

section \<open>Icons (icons.h, weatherstar.c)\<close>

text \<open>
  The filled circle that \<^verbatim>\<open>draw_sun\<close>, \<^verbatim>\<open>draw_cloud\<close> and the indicator dot of
  \<^verbatim>\<open>compose_display\<close> each write inline:
  \<^verbatim>\<open>for (dy = -r; dy <= r; dy++) for (dx = -r; dx <= r; dx++)
    if (dx * dx + dy * dy <= r * r) { int px = cx + dx, py = cy + dy;
      if (px >= 0 && px < FB_W && py >= 0 && py < FB_H) fb[py][px] = col; }\<close>
\<close>

definition fill_circle :: "int \<Rightarrow> int \<Rightarrow> int \<Rightarrow> rgb_t \<Rightarrow> fbstate \<Rightarrow> fbstate" where
  "fill_circle cx cy r col =
     for_loop (- r) (r + 1) (\<lambda>dy.
       for_loop (- r) (r + 1) (\<lambda>dx s.
         if dx * dx + dy * dy \<le> r * r
         then (let px = cx + dx; py = cy + dy
               in if px \<ge> 0 \<and> px < FB_W \<and> py \<ge> 0 \<and> py < FB_H then fb_store py px col s else s)
         else s))"

text \<open>\<^verbatim>\<open>float angle = (float)i * 3.14159f / 4.0f;\<close>\<close>

definition ray_angle :: "int \<Rightarrow> rat" where
  "ray_angle i = fdiv (fmul (float_of_int i) (f32 (314159 / 100000))) 4"

text \<open>\<^verbatim>\<open>cx + (int)(cosf(angle) * (float)d)\<close> and \<^verbatim>\<open>cy + (int)(sinf(angle) * (float)d)\<close>\<close>

definition ray_px :: "libm \<Rightarrow> int \<Rightarrow> int \<Rightarrow> int \<Rightarrow> int" where
  "ray_px lm cx i d = cx + trunc0 (fmul (cosf lm (ray_angle i)) (float_of_int d))"

definition ray_py :: "libm \<Rightarrow> int \<Rightarrow> int \<Rightarrow> int \<Rightarrow> int" where
  "ray_py lm cy i d = cy + trunc0 (fmul (sinf lm (ray_angle i)) (float_of_int d))"

text \<open>
  icons.h: both stores of a ray pixel are guarded in full:
  \<^verbatim>\<open>if (px >= 0 && px < FB_W && py >= 0 && py < FB_H) fb[py][px] = COL_ORANGE;
  if (px + 1 >= 0 && px + 1 < FB_W && py >= 0 && py < FB_H) fb[py][px + 1] = COL_ORANGE;\<close>
\<close>

definition draw_sun :: "libm \<Rightarrow> int \<Rightarrow> int \<Rightarrow> int \<Rightarrow> fbstate \<Rightarrow> fbstate" where
  "draw_sun lm cx cy r s =
     for_loop 0 8 (\<lambda>i.
       for_loop (r + 3) (r + 10) (\<lambda>d s.
         let px = ray_px lm cx i d; py = ray_py lm cy i d;
             s1 = (if px \<ge> 0 \<and> px < FB_W \<and> py \<ge> 0 \<and> py < FB_H
                   then fb_store py px COL_ORANGE s else s)
         in if px + 1 \<ge> 0 \<and> px + 1 < FB_W \<and> py \<ge> 0 \<and> py < FB_H
            then fb_store py (px + 1) COL_ORANGE s1 else s1))
       (fill_circle cx cy r COL_YELLOW s)"

text \<open>
  weatherstar.c: the second store has one test only:
  \<^verbatim>\<open>if (px >= 0 && px < FB_W && py >= 0 && py < FB_H) fb[py][px] = orange;
  /* make rays thicker */
  if (px + 1 < FB_W) fb[py][px + 1] = orange;\<close>
\<close>

definition draw_sun_ws :: "libm \<Rightarrow> int \<Rightarrow> int \<Rightarrow> int \<Rightarrow> fbstate \<Rightarrow> fbstate" where
  "draw_sun_ws lm cx cy r s =
     for_loop 0 8 (\<lambda>i.
       for_loop (r + 3) (r + 10) (\<lambda>d s.
         let px = ray_px lm cx i d; py = ray_py lm cy i d;
             s1 = (if px \<ge> 0 \<and> px < FB_W \<and> py \<ge> 0 \<and> py < FB_H
                   then fb_store py px COL_ORANGE s else s)
         in if px + 1 < FB_W then fb_store py (px + 1) COL_ORANGE s1 else s1))
       (fill_circle cx cy r COL_YELLOW s)"

text \<open>\<^verbatim>\<open>int offsets[][3] = {{0, 0, 12}, {-10, 4, 10}, {10, 4, 10}};\<close>\<close>

definition cloud_offsets :: "(int \<times> int \<times> int) list" where
  "cloud_offsets = [(0, 0, 12), (-10, 4, 10), (10, 4, 10)]"

definition draw_cloud :: "int \<Rightarrow> int \<Rightarrow> rgb_t \<Rightarrow> fbstate \<Rightarrow> fbstate" where
  "draw_cloud cx cy col =
     for_loop 0 3 (\<lambda>i s.
       case cloud_offsets ! nat i of (ox, oy, r) \<Rightarrow> fill_circle (cx + ox) (cy + oy) r col s)"

section \<open>The scene (display.h, weatherstar.c)\<close>

text \<open>Statements executed one after the other.\<close>

definition seq :: "('s \<Rightarrow> 's) list \<Rightarrow> 's \<Rightarrow> 's" where
  "seq ops s = fold (\<lambda>op. op) ops s"

text \<open>The output of \<^verbatim>\<open>%d\<close>.\<close>

fun dec_nat :: "nat \<Rightarrow> string" where
  "dec_nat n = (if n < 10 then [char_of (48 + n)]
                else dec_nat (n div 10) @ [char_of (48 + n mod 10)])"

declare dec_nat.simps [simp del]

definition dec :: "int \<Rightarrow> string" where
  "dec i = (if i < 0 then CHR ''-'' # dec_nat (nat (- i)) else dec_nat (nat i))"

text \<open>\<^verbatim>\<open>const char *timestr = (timebuf[0] == '0') ? timebuf + 1 : timebuf;\<close>\<close>

definition timestr :: "string \<Rightarrow> string" where
  "timestr timebuf =
     (case timebuf of [] \<Rightarrow> timebuf | c # rest \<Rightarrow> if c = CHR ''0'' then rest else timebuf)"

definition days :: "string list" where
  "days = [''SAT'', ''SUN'', ''MON'', ''TUE'', ''WED'']"

definition conds :: "string list" where
  "conds = [''Sunny'', ''Cloudy'', ''Rain'', ''P.Cloud'', ''Sunny'']"

definition his :: "int list" where
  "his = [68, 65, 58, 61, 70]"

definition los :: "int list" where
  "los = [52, 50, 48, 49, 54]"

text \<open>The body of the loop \<^verbatim>\<open>for (int i = 0; i < 5; i++)\<close> over the forecast boxes.\<close>

definition forecast_box :: "int \<Rightarrow> fbstate \<Rightarrow> fbstate" where
  "forecast_box i =
     (let strip_y = 252; box_w = 110; box_gap = 10;
          box_start = c_div (FB_W - (5 * box_w + 4 * box_gap)) 2;
          bx = box_start + i * (box_w + box_gap);
          by = strip_y + 26;
          dw = fb_string_width (days ! nat i) 2;
          dot = (if i = 2 then COL_CYAN else COL_YELLOW)
      in seq [
        fb_rect bx by box_w 95 (rgb 15 25 90),
        fb_hline bx (bx + box_w - 1) by COL_SEP,
        fb_string (bx + c_div (box_w - dw) 2) (by + 4) (days ! nat i) COL_WHITE 2,
        fb_string (bx + 8) (by + 30) (''Hi '' @ dec (his ! nat i)) COL_TEMPHI 1,
        fb_string (bx + 8) (by + 44) (''Lo '' @ dec (los ! nat i)) COL_TEMPLO 1,
        fb_string (bx + 8) (by + 62) (conds ! nat i) COL_LTGRAY 1,
        fill_circle (bx + box_w - 18) (by + 72) 3 dot])"

text \<open>
  \<^verbatim>\<open>compose_display\<close>: \<open>compose_steps\<close> are its statements in order, \<open>compose_with\<close>
  runs them. The two files make the same calls in the same order; they differ
  in the \<^verbatim>\<open>fb_clear\<close>, \<^verbatim>\<open>draw_rounded_rect\<close> and \<^verbatim>\<open>draw_sun\<close> they call, which
  are the parameters \<open>clear\<close>, \<open>rrect\<close> and \<open>sun\<close>. The function reads the clock
  (\<^verbatim>\<open>time\<close>, \<^verbatim>\<open>localtime\<close>) and formats it with \<^verbatim>\<open>strftime\<close>; the two strings that
  \<^verbatim>\<open>strftime\<close> leaves in \<^verbatim>\<open>timebuf\<close> and \<^verbatim>\<open>datebuf\<close> are parameters.
\<close>

definition compose_steps ::
  "(fbstate \<Rightarrow> fbstate) \<Rightarrow>
   (int \<Rightarrow> int \<Rightarrow> int \<Rightarrow> int \<Rightarrow> int \<Rightarrow> rgb_t \<Rightarrow> fbstate \<Rightarrow> fbstate) \<Rightarrow>
   (int \<Rightarrow> int \<Rightarrow> int \<Rightarrow> fbstate \<Rightarrow> fbstate) \<Rightarrow>
   string \<Rightarrow> string \<Rightarrow> (fbstate \<Rightarrow> fbstate) list" where
  "compose_steps clear rrect sun timebuf datebuf =
     (let card_y = 104;
          lbl_x = 36; val_x = 36 + 11 * 6;
          rlbl_x = 320; rval_x = 320 + 12 * 6;
          strip_y = 252;
          bot_y = FB_H - 30;
          tw = fb_string_width (timestr timebuf) 2
      in [
        clear,
        fb_rect 0 0 FB_W 4 COL_GOLD,
        fb_rect_grad_v 0 4 FB_W 36 COL_HEADER (rgb 30 55 140),
        fb_string_centered 10 ''THE  WEATHER  CHANNEL'' COL_WHITE 2,
        fb_hline 0 (FB_W - 1) 40 COL_GOLD,
        fb_hline 0 (FB_W - 1) 41 COL_GOLD,
        fb_rect_grad_v 0 42 FB_W 30 (rgb 30 50 140) (rgb 20 35 110),
        fb_string_centered 48 ''LOCAL  FORECAST'' COL_CYAN 2,
        fb_hline 20 (FB_W - 21) 73 COL_SEP,
        fb_string_centered 80 ''San Francisco, CA'' COL_WHITE 2,
        rrect 20 card_y (FB_W - 40) 140 6 (rgb 15 25 90),
        fb_hline 22 (FB_W - 23) (card_y + 1) COL_SEP,
        fb_string 36 (card_y + 8) ''Current Conditions'' COL_ACCENT 1,
        fb_hline 36 (FB_W - 57) (card_y + 20) (rgb 40 60 130),
        sun 90 (card_y + 55) 18,
        draw_cloud 110 (card_y + 60) COL_LTGRAY,
        fb_string 180 (card_y + 30) ''62'' COL_WHITE 5,
        fb_degree (180 + 5 * 6 * 2) (card_y + 30) COL_WHITE 3,
        fb_string (180 + 5 * 6 * 2 + 12) (card_y + 30) ''F'' COL_WHITE 4,
        fb_string 180 (card_y + 75) ''Partly Cloudy'' COL_LTGRAY 2,
        fb_string lbl_x (card_y + 100) ''Humidity:'' COL_CYAN 1,
        fb_string val_x (card_y + 100) ''72%'' COL_WHITE 1,
        fb_string lbl_x (card_y + 112) ''Wind:'' COL_CYAN 1,
        fb_string val_x (card_y + 112) ''W 12 mph'' COL_WHITE 1,
        fb_string lbl_x (card_y + 124) ''Barometer:'' COL_CYAN 1,
        fb_string val_x (card_y + 124) ''30.12 in'' COL_WHITE 1,
        fb_string rlbl_x (card_y + 100) ''Dewpoint:'' COL_CYAN 1,
        fb_string rval_x (card_y + 100) ''54 F'' COL_WHITE 1,
        fb_string rlbl_x (card_y + 112) ''Visibility:'' COL_CYAN 1,
        fb_string rval_x (card_y + 112) ''10 mi'' COL_WHITE 1,
        fb_string rlbl_x (card_y + 124) ''UV Index:'' COL_CYAN 1,
        fb_string rval_x (card_y + 124) ''3 Moderate'' COL_GREEN 1,
        fb_hline 20 (FB_W - 21) strip_y COL_GOLD,
        fb_hline 20 (FB_W - 21) (strip_y + 1) COL_GOLD,
        fb_string 30 (strip_y + 8) ''EXTENDED FORECAST'' COL_GOLD 1,
        fb_hline 20 (FB_W - 21) (strip_y + 20) (rgb 40 60 130),
        for_loop 0 5 forecast_box,
        fb_rect 0 bot_y FB_W 30 (rgb 10 15 55),
        fb_hline 0 (FB_W - 1) bot_y COL_GOLD,
        fb_hline 0 (FB_W - 1) (bot_y + 1) COL_GOLD,
        fb_string 20 (bot_y + 10) datebuf COL_LTGRAY 1,
        fb_string (FB_W - tw - 20) (bot_y + 6) (timestr timebuf) COL_WHITE 2,
        fb_string_centered (bot_y + 10) ''Local on the 8s'' COL_GOLD 1])"

definition compose_with ::
  "(fbstate \<Rightarrow> fbstate) \<Rightarrow>
   (int \<Rightarrow> int \<Rightarrow> int \<Rightarrow> int \<Rightarrow> int \<Rightarrow> rgb_t \<Rightarrow> fbstate \<Rightarrow> fbstate) \<Rightarrow>
   (int \<Rightarrow> int \<Rightarrow> int \<Rightarrow> fbstate \<Rightarrow> fbstate) \<Rightarrow>
   string \<Rightarrow> string \<Rightarrow> fbstate \<Rightarrow> fbstate" where
  "compose_with clear rrect sun timebuf datebuf =
     seq (compose_steps clear rrect sun timebuf datebuf)"

text \<open>display.h with fb.h and icons.h (its font.h is the font code of weatherstar.c).\<close>

definition compose_display :: "libm \<Rightarrow> string \<Rightarrow> string \<Rightarrow> fbstate \<Rightarrow> fbstate" where
  "compose_display lm timebuf datebuf =
     compose_with fb_clear draw_rounded_rect (draw_sun lm) timebuf datebuf"

text \<open>weatherstar.c.\<close>

definition compose_display_ws :: "libm \<Rightarrow> string \<Rightarrow> string \<Rightarrow> fbstate \<Rightarrow> fbstate" where
  "compose_display_ws lm timebuf datebuf =
     compose_with fb_clear_ws draw_rounded_rect_ws (draw_sun_ws lm) timebuf datebuf"

section \<open>Terminal output (screenshot.h, weatherstar.c)\<close>

abbreviation ESC :: char where "ESC \<equiv> CHR 0x1B"
abbreviation NL :: char where "NL \<equiv> CHR 0x0A"

text \<open>\<^verbatim>\<open>"\033[0m"\<close>, \<^verbatim>\<open>"\033[0m\n"\<close> and \<^verbatim>\<open>"\033[H\033[2J"\<close>\<close>

definition sgr_reset :: string where
  "sgr_reset = ESC # ''[0m''"

definition clear_screen :: string where
  "clear_screen = ESC # ''[H'' @ ESC # ''[2J''"

text \<open>The upper half block U+2580 in UTF-8: \<^verbatim>\<open>"\xe2\x96\x80"\<close>\<close>

definition half_block :: string where
  "half_block = [CHR 0xE2, CHR 0x96, CHR 0x80]"

text \<open>\<^verbatim>\<open>"\033[38;2;%d;%d;%dm\033[48;2;%d;%d;%dm\xe2\x96\x80"\<close> with
  \<^verbatim>\<open>top.r, top.g, top.b, bot.r, bot.g, bot.b\<close>\<close>

definition ansi_cell :: "rgb_t \<Rightarrow> rgb_t \<Rightarrow> string" where
  "ansi_cell ctop cbot =
     ESC # ''[38;2;'' @ dec (uint (cr ctop)) @ '';'' @ dec (uint (cg ctop)) @ '';''
       @ dec (uint (cb ctop)) @ ''m''
     @ ESC # ''[48;2;'' @ dec (uint (cr cbot)) @ '';'' @ dec (uint (cg cbot)) @ '';''
       @ dec (uint (cb cbot)) @ ''m''
     @ half_block"

text \<open>\<^verbatim>\<open>rgb_t top = fb[y][x]; rgb_t bot = (y + 1 < FB_H) ? fb[y + 1][x] : top;\<close>\<close>

definition cell_at :: "(int \<Rightarrow> int \<Rightarrow> rgb_t) \<Rightarrow> int \<Rightarrow> int \<Rightarrow> string" where
  "cell_at f y x =
     (let ctop = f y x; cbot = (if y + 1 < FB_H then f (y + 1) x else ctop)
      in ansi_cell ctop cbot)"

text \<open>
  weatherstar.c prints every cell to stdout. \<open>out\<close> is the text printed so far.
  \<^verbatim>\<open>for (int y = 0; y < FB_H; y += 2) {
    for (int x = 0; x < FB_W; x++) { ... printf(cell) }
    printf("\033[0m\n"); }\<close>
\<close>

function ansi_rows_ws :: "(int \<Rightarrow> int \<Rightarrow> rgb_t) \<Rightarrow> int \<Rightarrow> string \<Rightarrow> string" where
  "ansi_rows_ws f y out =
     (if y < FB_H
      then ansi_rows_ws f (y + 2)
             (for_loop 0 FB_W (\<lambda>x out. out @ cell_at f y x) out @ sgr_reset @ [NL])
      else out)"
  by pat_completeness auto
termination
  by (relation "measure (\<lambda>(f, y, out). nat (FB_H - y))") auto

declare ansi_rows_ws.simps [simp del]

definition ansi_output_ws :: "(int \<Rightarrow> int \<Rightarrow> rgb_t) \<Rightarrow> string" where
  "ansi_output_ws f = ansi_rows_ws f 0 clear_screen @ sgr_reset"

text \<open>
  screenshot.h builds each line in \<^verbatim>\<open>char line[640 * 48 + 16]\<close> with
  \<^verbatim>\<open>pos += snprintf(line + pos, sizeof(line) - (size_t)pos, ...)\<close> and writes
  \<^verbatim>\<open>pos\<close> bytes of it with \<^verbatim>\<open>fwrite\<close>. A line is the text stored so far (\<^verbatim>\<open>pos\<close> is
  its length). When a text would not fit with its terminating NUL, \<^verbatim>\<open>snprintf\<close> cuts it
  and \<^verbatim>\<open>pos\<close> runs past the bytes stored: the bytes written by \<^verbatim>\<open>fwrite\<close> are then
  not determined, which is the value \<open>None\<close>.
\<close>

definition LINE_SIZE :: nat where
  "LINE_SIZE = 640 * 48 + 16"

definition line_printf :: "string \<Rightarrow> string option \<Rightarrow> string option" where
  "line_printf txt line =
     (case line of
        None \<Rightarrow> None
      | Some l \<Rightarrow> if length l + length txt < LINE_SIZE then Some (l @ txt) else None)"

function ansi_rows :: "(int \<Rightarrow> int \<Rightarrow> rgb_t) \<Rightarrow> int \<Rightarrow> string option \<Rightarrow> string option" where
  "ansi_rows f y out =
     (if y < FB_H
      then ansi_rows f (y + 2)
             (case line_printf (sgr_reset @ [NL])
                     (for_loop 0 FB_W (\<lambda>x. line_printf (cell_at f y x)) (Some [])) of
                None \<Rightarrow> None
              | Some l \<Rightarrow> map_option (\<lambda>out. out @ l) out)
      else out)"
  by pat_completeness auto
termination
  by (relation "measure (\<lambda>(f, y, out). nat (FB_H - y))") auto

declare ansi_rows.simps [simp del]

definition ansi_output :: "(int \<Rightarrow> int \<Rightarrow> rgb_t) \<Rightarrow> string option" where
  "ansi_output f = map_option (\<lambda>out. out @ sgr_reset) (ansi_rows f 0 (Some clear_screen))"

section \<open>The entry point (main.c, weatherstar.c)\<close>

text \<open>
  The argument loop, over \<^verbatim>\<open>argv[1]\<close> to \<^verbatim>\<open>argv[argc - 1]\<close>:
  \<^verbatim>\<open>if (strcmp(argv[i], "--screenshot") == 0 && i + 1 < argc) screenshot = argv[++i];
  else if (strcmp(argv[i], "--no-ansi") == 0) no_ansi = 1;
  else if (strcmp(argv[i], "--help") == 0) { printf(usage); return 0; }\<close>
  \<open>i + 1 < argc\<close> holds when an argument follows.
\<close>

datatype parsed = Help | Opts "string option" bool

fun parse_args :: "string list \<Rightarrow> string option \<Rightarrow> bool \<Rightarrow> parsed" where
  "parse_args [] screenshot no_ansi = Opts screenshot no_ansi"
| "parse_args (a # rest) screenshot no_ansi =
     (if a = ''--screenshot'' \<and> rest \<noteq> [] then parse_args (tl rest) (Some (hd rest)) no_ansi
      else if a = ''--no-ansi'' then parse_args rest screenshot True
      else if a = ''--help'' then Help
      else parse_args rest screenshot no_ansi)"

text \<open>
  What a run of the program does: its exit code, what it prints to stdout and to stderr
  itself, and the paths it passes to \<^verbatim>\<open>write_png\<close>.
\<close>

record run =
  exit_code :: int
  stdout :: string
  stderr :: string
  png_paths :: "string list"

definition usage :: string where
  "usage = ''Usage: weatherstar [--screenshot FILE.png] [--no-ansi]'' @ [NL]"

text \<open>The framebuffer is a static array: all bytes are zero when the program starts.\<close>

definition fb_init :: fbstate where
  "fb_init = Fb (\<lambda>y x. rgb 0 0 0)"

text \<open>
  \<^verbatim>\<open>main\<close>, the same in main.c and weatherstar.c. \<open>compose\<close> and \<open>ansi\<close> are the
  \<^verbatim>\<open>compose_display\<close> and \<^verbatim>\<open>ansi_output\<close> of the file; \<open>write_png\<close> gives the value
  that \<^verbatim>\<open>write_png\<close>, which writes the file with libpng, returns for a path. The result is
  \<open>None\<close> when the run has no defined outcome (a store outside the framebuffer, a line
  that does not fit its buffer).
\<close>

definition main_with ::
  "(fbstate \<Rightarrow> fbstate) \<Rightarrow> ((int \<Rightarrow> int \<Rightarrow> rgb_t) \<Rightarrow> string option) \<Rightarrow> (string \<Rightarrow> int) \<Rightarrow>
   string list \<Rightarrow> run option" where
  "main_with compose ansi write_png args =
     (case parse_args args None False of
        Help \<Rightarrow> Some \<lparr>exit_code = 0, stdout = usage, stderr = [], png_paths = []\<rparr>
      | Opts screenshot no_ansi \<Rightarrow>
          (case compose fb_init of
             Fault _ _ \<Rightarrow> None
           | Fb f \<Rightarrow>
               (case (if \<not> no_ansi then ansi f else Some []) of
                  None \<Rightarrow> None
                | Some txt \<Rightarrow>
                    (case screenshot of
                       None \<Rightarrow> Some \<lparr>exit_code = 0, stdout = txt, stderr = [], png_paths = []\<rparr>
                     | Some path \<Rightarrow>
                         if write_png path = 0
                         then Some \<lparr>exit_code = 0, stdout = txt,
                                    stderr = ''Screenshot saved to '' @ path @ [NL],
                                    png_paths = [path]\<rparr>
                         else Some \<lparr>exit_code = 1, stdout = txt, stderr = [],
                                    png_paths = [path]\<rparr>))))"

text \<open>main.c, and weatherstar.c.\<close>

definition main :: "libm \<Rightarrow> string \<Rightarrow> string \<Rightarrow> (string \<Rightarrow> int) \<Rightarrow> string list \<Rightarrow> run option" where
  "main lm timebuf datebuf write_png args =
     main_with (compose_display lm timebuf datebuf) ansi_output write_png args"

definition main_ws :: "libm \<Rightarrow> string \<Rightarrow> string \<Rightarrow> (string \<Rightarrow> int) \<Rightarrow> string list \<Rightarrow> run option" where
  "main_ws lm timebuf datebuf write_png args =
     main_with (compose_display_ws lm timebuf datebuf) (\<lambda>f. Some (ansi_output_ws f)) write_png args"

section \<open>Regions and painting\<close>

text \<open>
  \<open>paint A col f\<close> is the framebuffer \<open>f\<close> with the pixels of the region \<open>A\<close> set to the
  colours \<open>col\<close>. A drawing operation paints in \<open>R\<close> when, on every framebuffer, it
  ends without a fault and has the effect of painting a region inside \<open>R\<close>.
\<close>

definition paint :: "(int \<Rightarrow> int \<Rightarrow> bool) \<Rightarrow> (int \<Rightarrow> int \<Rightarrow> rgb_t) \<Rightarrow> (int \<Rightarrow> int \<Rightarrow> rgb_t) \<Rightarrow> int \<Rightarrow> int \<Rightarrow> rgb_t" where
  "paint A col f = (\<lambda>y x. if A y x then col y x else f y x)"

definition paints_in :: "(fbstate \<Rightarrow> fbstate) \<Rightarrow> (int \<Rightarrow> int \<Rightarrow> bool) \<Rightarrow> bool" where
  "paints_in op R \<longleftrightarrow>
     (\<exists>A col. (\<forall>f. op (Fb f) = Fb (paint A col f)) \<and> (\<forall>y x. A y x \<longrightarrow> R y x))"

text \<open>The pixels of the rectangle with corner (x0, y0), width w and height h that lie in
  the framebuffer.\<close>

definition in_rect :: "int \<Rightarrow> int \<Rightarrow> int \<Rightarrow> int \<Rightarrow> int \<Rightarrow> int \<Rightarrow> bool" where
  "in_rect x0 y0 w h y x \<longleftrightarrow> in_grid y x \<and> y0 \<le> y \<and> y < y0 + h \<and> x0 \<le> x \<and> x < x0 + w"

section \<open>The terminal export contract\<close>

text \<open>
  The contract of the terminal image, written out byte by byte. A colour channel is a
  number from 0 to 255, in decimal without leading zeros; a colour is its three channels,
  red, green and blue, separated by semicolons.
\<close>

definition digit :: "nat \<Rightarrow> char" where
  "digit d = ''0123456789'' ! d"

definition channel :: "nat \<Rightarrow> string" where
  "channel v = (if v < 10 then [digit v]
                else if v < 100 then [digit (v div 10), digit (v mod 10)]
                else [digit (v div 100), digit (v div 10 mod 10), digit (v mod 10)])"

definition channels :: "rgb_t \<Rightarrow> string" where
  "channels c = channel (unat (cr c)) @ '';'' @ channel (unat (cg c)) @ '';'' @ channel (unat (cb c))"

text \<open>
  A cell: the escape sequence \<^verbatim>\<open>ESC [ 38 ; 2 ; r ; g ; b m\<close> selects the foreground colour,
  \<^verbatim>\<open>ESC [ 48 ; 2 ; r ; g ; b m\<close> the background colour, and the three bytes E2 96 80 are
  the upper half block U+2580 in UTF-8, which shows the foreground colour in the upper half
  of the cell and the background colour in the lower half.
\<close>

definition half_block_cell :: "rgb_t \<Rightarrow> rgb_t \<Rightarrow> string" where
  "half_block_cell fg bg =
     CHR 0x1B # ''[38;2;'' @ channels fg @ ''m'' @ CHR 0x1B # ''[48;2;'' @ channels bg @ ''m''
     @ [CHR 0xE2, CHR 0x96, CHR 0x80]"

text \<open>
  Line \<open>k\<close> of the image shows the rows \<open>2 * k\<close> and \<open>2 * k + 1\<close>: one cell per column, the
  upper row as foreground and the lower row as background, then the reset of the styling
  \<^verbatim>\<open>ESC [ 0 m\<close> and the newline. The image is the cursor home and clear screen sequences
  \<^verbatim>\<open>ESC [ H\<close> and \<^verbatim>\<open>ESC [ 2 J\<close>, the 200 lines, and one more reset.
\<close>

definition ansi_line_spec :: "(int \<Rightarrow> int \<Rightarrow> rgb_t) \<Rightarrow> int \<Rightarrow> string" where
  "ansi_line_spec f k =
     concat (map (\<lambda>x. half_block_cell (f (2 * k) x) (f (2 * k + 1) x)) [0..639])
     @ CHR 0x1B # ''[0m'' @ [CHR 0x0A]"

definition ansi_spec :: "(int \<Rightarrow> int \<Rightarrow> rgb_t) \<Rightarrow> string" where
  "ansi_spec f =
     CHR 0x1B # ''[H'' @ CHR 0x1B # ''[2J'' @ concat (map (ansi_line_spec f) [0..199])
     @ CHR 0x1B # ''[0m''"

text \<open>The number of lines of a text: its newline characters.\<close>

definition count_lines :: "string \<Rightarrow> nat" where
  "count_lines txt = length (filter (\<lambda>c. c = NL) txt)"

text \<open>The significand that \<open>sqrtf\<close> computes for a scaled argument \<open>z\<close>.\<close>

definition sqrt_sig :: "rat \<Rightarrow> int" where
  "sqrt_sig z = (let s = int (isqrt (nat \<lfloor>z\<rfloor>)); h = (of_int s + 1/2) * (of_int s + 1/2)
                 in if z < h then s else if h < z then s + 1 else if even s then s else s + 1)"

section \<open>The corner pixels of a rounded rectangle\<close>

text \<open>
  \<open>corner_cut x0 y0 w h r y x\<close>: the pixel (x, y) is a corner-block pixel of the rectangle
  with corner (x0, y0), width w and height h that lies outside the rounding arc of radius
  r. Its horizontal offset \<open>dx\<close> is its distance from the left edge \<open>x0\<close> or from the right
  edge \<open>x0 + w - 1\<close>, its vertical offset \<open>dy\<close> is its distance from the top edge \<open>y0\<close> or
  from the bottom edge \<open>y0 + h - 1\<close>; both lie in \<open>[0, r)\<close>, and
  \<open>(r - dx)\<^sup>2 + (r - dy)\<^sup>2 > r\<^sup>2\<close>.
\<close>

definition corner_cut :: "int \<Rightarrow> int \<Rightarrow> int \<Rightarrow> int \<Rightarrow> int \<Rightarrow> int \<Rightarrow> int \<Rightarrow> bool" where
  "corner_cut x0 y0 w h r y x =
     list_ex (\<lambda>dx. list_ex (\<lambda>dy.
         0 \<le> dx \<and> dx < r \<and> 0 \<le> dy \<and> dy < r \<and>
         r * r < (r - dx) * (r - dx) + (r - dy) * (r - dy))
       [y - y0, y0 + h - 1 - y]) [x - x0, x0 + w - 1 - x]"

text \<open>What the drawing code needs of the C library: cosines and sines lie in \<open>[-1, 1]\<close>.\<close>

definition libm_ok :: "libm \<Rightarrow> bool" where
  "libm_ok lm \<longleftrightarrow> (\<forall>a. \<bar>cosf lm a\<bar> \<le> 1 \<and> \<bar>sinf lm a\<bar> \<le> 1)"

text \<open>
  The pixels of the glyph of \<open>ch\<close> drawn at (px, py): those of the 5 by 7 cells of
  \<open>scale\<close> by \<open>scale\<close> pixels whose bit is set; and the pixels of a string.
\<close>

definition glyph_region :: "int \<Rightarrow> int \<Rightarrow> char \<Rightarrow> int \<Rightarrow> int \<Rightarrow> int \<Rightarrow> bool" where
  "glyph_region px py ch scale y x \<longleftrightarrow>
     in_grid y x \<and> 0 < scale \<and> px \<le> x \<and> x < px + 5 * scale \<and> py \<le> y \<and> y < py + 7 * scale \<and>
     glyph_bit ch ((y - py) div scale) ((x - px) div scale)"

fun string_region :: "int \<Rightarrow> int \<Rightarrow> string \<Rightarrow> int \<Rightarrow> int \<Rightarrow> int \<Rightarrow> bool" where
  "string_region px py [] scale y x \<longleftrightarrow> False"
| "string_region px py (ch # rest) scale y x \<longleftrightarrow>
     ch \<noteq> CHR 0x00 \<and>
     (glyph_region px py ch scale y x \<or> string_region (px + 6 * scale) py rest scale y x)"

text \<open>
  A concrete C library for the closed examples: the values of a correctly rounding
  \<^verbatim>\<open>cosf\<close> and \<^verbatim>\<open>sinf\<close> at the eight ray angles \<open>ray_angle 0\<close>, ..., \<open>ray_angle 7\<close>
  of \<^verbatim>\<open>draw_sun\<close>, the only arguments the program calls them with (elsewhere 1 and 0).
\<close>

definition ray_table :: "(rat \<times> rat \<times> rat) list" where
  "ray_table = [
     (0, 1, 0),
     (823549 / 1048576, 11863291 / 16777216, 2965819 / 4194304),
     (823549 / 524288, 11149847 / 8796093022208, 1),
     (2470647 / 1048576, - (11863261 / 16777216), 5931653 / 8388608),
     (823549 / 262144, - 1, 11149847 / 4398046511104),
     (4117745 / 1048576, - (11863321 / 16777216), - (5931623 / 8388608)),
     (2470647 / 524288, - (8362385 / 2199023255552), - 1),
     (5764843 / 1048576, 11863231 / 16777216, - (1482917 / 2097152))]"

definition libm_rays :: libm where
  "libm_rays =
     \<lparr>cosf = (\<lambda>a. case map_of ray_table a of Some (c, s) \<Rightarrow> c | None \<Rightarrow> 1),
      sinf = (\<lambda>a. case map_of ray_table a of Some (c, s) \<Rightarrow> s | None \<Rightarrow> 0)\<rparr>"

text \<open>
  Two outcomes of \<^verbatim>\<open>write_png\<close> for the closed examples: it cannot open its file and
  returns -1, or it writes the file and returns 0.
\<close>

definition png_fails :: "string \<Rightarrow> int" where
  "png_fails path = - 1"

definition png_ok :: "string \<Rightarrow> int" where
  "png_ok path = 0"

section \<open>Loops and painted regions\<close>

lemma for_loop_stop: "n \<le> i \<Longrightarrow> for_loop i n body s = s"
  by (subst for_loop.simps) simp

lemma for_loop_step: "i < n \<Longrightarrow> for_loop i n body s = for_loop (i + 1) n body (body i s)"
  by (subst for_loop.simps) simp

lemma for_loop_last: "i < n \<Longrightarrow> for_loop i n body s = body (n - 1) (for_loop i (n - 1) body s)"
proof (induction i n body s rule: for_loop.induct)
  case (1 i n body s)
  show ?case
  proof (cases "i + 1 < n")
    case True
    then show ?thesis using 1 by (simp add: for_loop_step)
  next
    case False
    with 1(2) have "n = i + 1" by simp
    then show ?thesis by (simp add: for_loop_step for_loop_stop)
  qed
qed

lemma for_loop_invariant:
  assumes "P s" and "\<And>i s. lo \<le> i \<Longrightarrow> i < n \<Longrightarrow> P s \<Longrightarrow> P (body i s)"
  shows "P (for_loop lo n body s)"
  using assms
proof (induction lo n body s rule: for_loop.induct)
  case (1 i n body s)
  show ?case
  proof (cases "i < n")
    case True
    have "P (for_loop (i + 1) n body (body i s))"
      using True 1(2,3) by (intro 1(1)) simp_all
    then show ?thesis using True by (simp add: for_loop_step)
  next
    case False
    then show ?thesis using 1(2) by (simp add: for_loop_stop)
  qed
qed

lemma for_loop_cong_range:
  assumes "\<And>i s. lo \<le> i \<Longrightarrow> i < n \<Longrightarrow> body i s = body' i s"
  shows "for_loop lo n body s = for_loop lo n body' s"
  using assms
proof (induction lo n body s rule: for_loop.induct)
  case (1 i n body s)
  show ?case
  proof (cases "i < n")
    case True
    have "for_loop (i + 1) n body (body i s) = for_loop (i + 1) n body' (body i s)"
      using True 1(2) by (intro 1(1)) simp_all
    then show ?thesis using True 1(2)[of i s] by (simp add: for_loop_step)
  next
    case False
    then show ?thesis by (simp add: for_loop_stop)
  qed
qed

lemma paint_paint:
  "paint B col (paint A col f) = paint (\<lambda>y x. A y x \<or> B y x) col f"
  by (auto simp add: paint_def fun_eq_iff)

lemma paint_overlay:
  "paint B colB (paint A colA f) =
   paint (\<lambda>y x. A y x \<or> B y x) (\<lambda>y x. if B y x then colB y x else colA y x) f"
  by (auto simp add: paint_def fun_eq_iff)

lemma paint_none: "paint (\<lambda>y x. False) col f = f"
  by (simp add: paint_def)

lemma paint_cong_region: "(\<And>y x. A y x = B y x) \<Longrightarrow> paint A col f = paint B col f"
  by (simp add: paint_def fun_eq_iff)

lemma for_loop_paint:
  assumes "\<And>i f. lo \<le> i \<Longrightarrow> i < n \<Longrightarrow> body i (Fb f) = Fb (paint (A i) col f)"
  shows "for_loop lo n body (Fb f) = Fb (paint (\<lambda>y x. \<exists>i. lo \<le> i \<and> i < n \<and> A i y x) col f)"
  using assms
proof (induction lo n body "Fb f" arbitrary: f rule: for_loop.induct)
  case (1 i n body)
  show ?case
  proof (cases "i < n")
    case True
    have b: "body i (Fb f) = Fb (paint (A i) col f)" using True by (intro 1(2)) simp_all
    have "for_loop (i + 1) n body (Fb (paint (A i) col f)) =
          Fb (paint (\<lambda>y x. \<exists>j. i + 1 \<le> j \<and> j < n \<and> A j y x) col (paint (A i) col f))"
      using True b 1(2) by (intro 1(1)) simp_all
    also have "paint (\<lambda>y x. \<exists>j. i + 1 \<le> j \<and> j < n \<and> A j y x) col (paint (A i) col f) =
               paint (\<lambda>y x. \<exists>j. i \<le> j \<and> j < n \<and> A j y x) col f"
      unfolding paint_paint
    proof (rule paint_cong_region)
      fix y x
      show "(A i y x \<or> (\<exists>j\<ge>i + 1. j < n \<and> A j y x)) = (\<exists>j\<ge>i. j < n \<and> A j y x)"
        using True by (metis add1_zle_eq order_le_less order_refl)
    qed
    finally show ?thesis using True b by (simp add: for_loop_step)
  next
    case False
    then have "paint (\<lambda>y x. \<exists>j. i \<le> j \<and> j < n \<and> A j y x) col f = f"
      by (auto simp add: paint_def fun_eq_iff)
    then show ?thesis using False by (simp add: for_loop_stop)
  qed
qed

lemma fb_store_paint:
  "in_grid y x \<Longrightarrow> fb_store y x c (Fb f) = Fb (paint (\<lambda>y' x'. y' = y \<and> x' = x) (\<lambda>_ _. c) f)"
  by (auto simp add: fb_store_def paint_def fun_eq_iff)

lemma paints_inI:
  "(\<And>f. op (Fb f) = Fb (paint A col f)) \<Longrightarrow> (\<And>y x. A y x \<Longrightarrow> R y x) \<Longrightarrow> paints_in op R"
  unfolding paints_in_def by blast

lemma paints_in_weaken:
  "paints_in op R \<Longrightarrow> (\<And>y x. R y x \<Longrightarrow> R' y x) \<Longrightarrow> paints_in op R'"
  unfolding paints_in_def by blast

lemma paints_in_skip: "paints_in (\<lambda>s. s) R"
  by (rule paints_inI [where A = "\<lambda>y x. False"]) (simp_all add: paint_none)

lemma paints_in_comp:
  assumes "paints_in op1 R" "paints_in op2 R"
  shows "paints_in (\<lambda>s. op2 (op1 s)) R"
proof -
  from assms(1) obtain A1 c1 where 1: "\<And>f. op1 (Fb f) = Fb (paint A1 c1 f)" "\<And>y x. A1 y x \<Longrightarrow> R y x"
    unfolding paints_in_def by blast
  from assms(2) obtain A2 c2 where 2: "\<And>f. op2 (Fb f) = Fb (paint A2 c2 f)" "\<And>y x. A2 y x \<Longrightarrow> R y x"
    unfolding paints_in_def by blast
  show ?thesis
    by (rule paints_inI [where A = "\<lambda>y x. A1 y x \<or> A2 y x"
          and col = "\<lambda>y x. if A2 y x then c2 y x else c1 y x"])
       (auto simp add: 1 2 paint_overlay)
qed

lemma paints_in_if:
  "(c \<Longrightarrow> paints_in op R) \<Longrightarrow> paints_in (\<lambda>s. if c then op s else s) R"
  by (cases c) (simp_all add: paints_in_skip)

lemma paints_in_store:
  "in_grid y x \<Longrightarrow> R y x \<Longrightarrow> paints_in (fb_store y x c) R"
  by (rule paints_inI [where A = "\<lambda>y' x'. y' = y \<and> x' = x" and col = "\<lambda>_ _. c"])
     (simp_all add: fb_store_paint)

lemma paints_in_for_loop:
  assumes "\<And>i. lo \<le> i \<Longrightarrow> i < n \<Longrightarrow> paints_in (body i) R"
  shows "paints_in (for_loop lo n body) R"
  using assms
proof (induction "nat (n - lo)" arbitrary: lo)
  case 0
  then have "for_loop lo n body = (\<lambda>s. s)" by (simp add: fun_eq_iff for_loop_stop)
  then show ?case by (simp add: paints_in_skip)
next
  case (Suc k)
  then have lt: "lo < n" by simp
  have "paints_in (for_loop (lo + 1) n body) R"
    using Suc(2) Suc(3) by (intro Suc(1)) simp_all
  moreover have "paints_in (body lo) R" using lt by (intro Suc(3)) simp_all
  moreover have "for_loop lo n body = (\<lambda>s. for_loop (lo + 1) n body (body lo s))"
    using lt by (simp add: fun_eq_iff for_loop_step)
  ultimately show ?case by (simp add: paints_in_comp)
qed

lemma paints_in_fold:
  assumes "\<And>p. p \<in> set ps \<Longrightarrow> paints_in (g p) R"
  shows "paints_in (fold g ps) R"
  using assms
proof (induction ps)
  case Nil
  have "fold g [] = (\<lambda>s. s)" by (simp add: fun_eq_iff)
  then show ?case by (simp only: paints_in_skip)
next
  case (Cons p ps)
  have "fold g (p # ps) = (\<lambda>s. fold g ps (g p s))" by (simp add: fun_eq_iff)
  moreover have "paints_in (g p) R" by (rule Cons(2)) simp
  moreover have "paints_in (fold g ps) R" using Cons(2) by (intro Cons(1)) simp
  ultimately show ?case by (simp add: paints_in_comp)
qed

lemma paints_in_seq:
  "(\<And>op. op \<in> set ops \<Longrightarrow> paints_in op R) \<Longrightarrow> paints_in (seq ops) R"
  unfolding seq_def [abs_def] by (rule paints_in_fold)

lemma paints_in_frame:
  assumes "paints_in op R" "\<not> R y x"
  shows "pix (op (Fb f)) x y = pix (Fb f) x y"
proof -
  from assms(1) obtain A c where 1: "\<And>f. op (Fb f) = Fb (paint A c f)" "\<And>y x. A y x \<Longrightarrow> R y x"
    unfolding paints_in_def by blast
  then show ?thesis using assms(2) by (auto simp add: pix_def paint_def)
qed

lemma paints_in_not_faulted: "paints_in op R \<Longrightarrow> \<not> faulted (op (Fb f))"
  unfolding paints_in_def faulted_def by (metis fbstate.simps(5))

section \<open>The primitives as painted regions\<close>

lemma paint_cong_col: "(\<And>y x. A y x \<Longrightarrow> c1 y x = c2 y x) \<Longrightarrow> paint A c1 f = paint A c2 f"
  by (auto simp add: paint_def fun_eq_iff)

text \<open>The guarded store of one pixel.\<close>

lemma guarded_store_paint:
  assumes "g \<Longrightarrow> in_grid y x"
  shows "(if g then fb_store y x c (Fb f) else Fb f) =
         Fb (paint (\<lambda>y' x'. g \<and> y' = y \<and> x' = x) (\<lambda>_ _. c) f)"
proof (cases g)
  case True
  then show ?thesis using assms by (simp add: fb_store_paint)
next
  case False
  then show ?thesis by (simp add: paint_none)
qed

text \<open>The inner loop of \<open>fb_rect\<close> and \<open>fb_rect_grad_v\<close>: one row of the rectangle.\<close>

lemma row_loop_paint:
  assumes "y < FB_H"
  shows "for_loop x0 (min (x0 + w) FB_W)
           (\<lambda>x s. if x \<ge> 0 \<and> y \<ge> 0 then fb_store y x c s else s) (Fb f) =
         Fb (paint (\<lambda>y' x'. y' = y \<and> in_grid y' x' \<and> x0 \<le> x' \<and> x' < x0 + w) (\<lambda>_ _. c) f)"
proof -
  have "for_loop x0 (min (x0 + w) FB_W)
           (\<lambda>x s. if x \<ge> 0 \<and> y \<ge> 0 then fb_store y x c s else s) (Fb f) =
        Fb (paint (\<lambda>y' x'. \<exists>i. x0 \<le> i \<and> i < min (x0 + w) FB_W \<and>
                     ((i \<ge> 0 \<and> y \<ge> 0) \<and> y' = y \<and> x' = i)) (\<lambda>_ _. c) f)"
    using assms by (intro for_loop_paint guarded_store_paint) (simp add: in_grid_def)
  also have "paint (\<lambda>y' x'. \<exists>i. x0 \<le> i \<and> i < min (x0 + w) FB_W \<and>
                     ((i \<ge> 0 \<and> y \<ge> 0) \<and> y' = y \<and> x' = i)) (\<lambda>_ _. c) f =
             paint (\<lambda>y' x'. y' = y \<and> in_grid y' x' \<and> x0 \<le> x' \<and> x' < x0 + w) (\<lambda>_ _. c) f"
    using assms by (intro paint_cong_region) (auto simp add: in_grid_def)
  finally show ?thesis .
qed

lemma fb_rect_paint:
  "fb_rect x0 y0 w h c (Fb f) = Fb (paint (in_rect x0 y0 w h) (\<lambda>_ _. c) f)"
proof -
  have "fb_rect x0 y0 w h c (Fb f) =
        Fb (paint (\<lambda>y' x'. \<exists>i. y0 \<le> i \<and> i < min (y0 + h) FB_H \<and>
                     (y' = i \<and> in_grid y' x' \<and> x0 \<le> x' \<and> x' < x0 + w)) (\<lambda>_ _. c) f)"
    unfolding fb_rect_def by (intro for_loop_paint row_loop_paint) simp
  also have "paint (\<lambda>y' x'. \<exists>i. y0 \<le> i \<and> i < min (y0 + h) FB_H \<and>
                     (y' = i \<and> in_grid y' x' \<and> x0 \<le> x' \<and> x' < x0 + w)) (\<lambda>_ _. c) f =
             paint (in_rect x0 y0 w h) (\<lambda>_ _. c) f"
    by (intro paint_cong_region) (auto simp add: in_grid_def in_rect_def)
  finally show ?thesis .
qed

lemma fb_rect_grad_v_paint:
  "fb_rect_grad_v x0 y0 w h ctop cbot (Fb f) =
   Fb (paint (in_rect x0 y0 w h) (\<lambda>y x. grad_color ctop cbot (grad_t y y0 h)) f)"
proof -
  have body: "(let t = grad_t y y0 h; c = grad_color ctop cbot t
               in for_loop x0 (min (x0 + w) FB_W)
                    (\<lambda>x s. if x \<ge> 0 \<and> y \<ge> 0 then fb_store y x c s else s) (Fb f)) =
              Fb (paint (\<lambda>y' x'. y' = y \<and> in_grid y' x' \<and> x0 \<le> x' \<and> x' < x0 + w)
                    (\<lambda>y x. grad_color ctop cbot (grad_t y y0 h)) f)"
    if "y < FB_H" for y f
  proof -
    have "paint (\<lambda>y' x'. y' = y \<and> in_grid y' x' \<and> x0 \<le> x' \<and> x' < x0 + w)
            (\<lambda>_ _. grad_color ctop cbot (grad_t y y0 h)) f =
          paint (\<lambda>y' x'. y' = y \<and> in_grid y' x' \<and> x0 \<le> x' \<and> x' < x0 + w)
            (\<lambda>y x. grad_color ctop cbot (grad_t y y0 h)) f"
      by (intro paint_cong_col) simp
    then show ?thesis using that by (simp add: Let_def row_loop_paint)
  qed
  have "fb_rect_grad_v x0 y0 w h ctop cbot (Fb f) =
        Fb (paint (\<lambda>y' x'. \<exists>i. y0 \<le> i \<and> i < min (y0 + h) FB_H \<and>
                     (y' = i \<and> in_grid y' x' \<and> x0 \<le> x' \<and> x' < x0 + w))
              (\<lambda>y x. grad_color ctop cbot (grad_t y y0 h)) f)"
    unfolding fb_rect_grad_v_def by (intro for_loop_paint body) simp
  also have "paint (\<lambda>y' x'. \<exists>i. y0 \<le> i \<and> i < min (y0 + h) FB_H \<and>
                     (y' = i \<and> in_grid y' x' \<and> x0 \<le> x' \<and> x' < x0 + w))
              (\<lambda>y x. grad_color ctop cbot (grad_t y y0 h)) f =
             paint (in_rect x0 y0 w h) (\<lambda>y x. grad_color ctop cbot (grad_t y y0 h)) f"
    by (intro paint_cong_region) (auto simp add: in_grid_def in_rect_def)
  finally show ?thesis .
qed

lemma fb_hline_paint:
  "fb_hline x0 x1 y c (Fb f) =
   Fb (paint (\<lambda>y' x'. y' = y \<and> in_grid y' x' \<and> x0 \<le> x' \<and> x' \<le> x1) (\<lambda>_ _. c) f)"
proof (cases "y < 0 \<or> y \<ge> FB_H")
  case True
  then have "paint (\<lambda>y' x'. y' = y \<and> in_grid y' x' \<and> x0 \<le> x' \<and> x' \<le> x1) (\<lambda>_ _. c) f = f"
    by (auto simp add: paint_def fun_eq_iff in_grid_def)
  then show ?thesis using True by (simp add: fb_hline_def)
next
  case False
  have "for_loop x0 (min (x1 + 1) FB_W) (\<lambda>x s. if x \<ge> 0 then fb_store y x c s else s) (Fb f) =
        Fb (paint (\<lambda>y' x'. \<exists>i. x0 \<le> i \<and> i < min (x1 + 1) FB_W \<and> (i \<ge> 0 \<and> y' = y \<and> x' = i))
              (\<lambda>_ _. c) f)"
    using False by (intro for_loop_paint guarded_store_paint) (simp add: in_grid_def)
  also have "paint (\<lambda>y' x'. \<exists>i. x0 \<le> i \<and> i < min (x1 + 1) FB_W \<and> (i \<ge> 0 \<and> y' = y \<and> x' = i))
              (\<lambda>_ _. c) f =
             paint (\<lambda>y' x'. y' = y \<and> in_grid y' x' \<and> x0 \<le> x' \<and> x' \<le> x1) (\<lambda>_ _. c) f"
    using False by (intro paint_cong_region) (auto simp add: in_grid_def)
  finally show ?thesis using False by (simp add: fb_hline_def)
qed

lemma fb_clear_paint:
  "fb_clear (Fb f) = Fb (paint in_grid (\<lambda>y x. fb_bg_at y) f)"
proof -
  have row: "(let c = fb_bg_at y in for_loop 0 FB_W (\<lambda>x. fb_store y x c) (Fb f)) =
             Fb (paint (\<lambda>y' x'. y' = y \<and> in_grid y' x') (\<lambda>y x. fb_bg_at y) f)"
    if "0 \<le> y" "y < FB_H" for y f
  proof -
    have "for_loop 0 FB_W (\<lambda>x. fb_store y x (fb_bg_at y)) (Fb f) =
          Fb (paint (\<lambda>y' x'. \<exists>i. 0 \<le> i \<and> i < FB_W \<and> (y' = y \<and> x' = i)) (\<lambda>_ _. fb_bg_at y) f)"
      using that by (intro for_loop_paint fb_store_paint) (simp add: in_grid_def)
    also have "paint (\<lambda>y' x'. \<exists>i. 0 \<le> i \<and> i < FB_W \<and> (y' = y \<and> x' = i)) (\<lambda>_ _. fb_bg_at y) f =
               paint (\<lambda>y' x'. y' = y \<and> in_grid y' x') (\<lambda>_ _. fb_bg_at y) f"
      using that by (intro paint_cong_region) (auto simp add: in_grid_def)
    also have "\<dots> = paint (\<lambda>y' x'. y' = y \<and> in_grid y' x') (\<lambda>y x. fb_bg_at y) f"
      by (intro paint_cong_col) simp
    finally show ?thesis by (simp add: Let_def)
  qed
  have "fb_clear (Fb f) =
        Fb (paint (\<lambda>y' x'. \<exists>i. 0 \<le> i \<and> i < FB_H \<and> (y' = i \<and> in_grid y' x')) (\<lambda>y x. fb_bg_at y) f)"
    unfolding fb_clear_def by (intro for_loop_paint row) simp_all
  also have "paint (\<lambda>y' x'. \<exists>i. 0 \<le> i \<and> i < FB_H \<and> (y' = i \<and> in_grid y' x')) (\<lambda>y x. fb_bg_at y) f =
             paint in_grid (\<lambda>y x. fb_bg_at y) f"
    by (intro paint_cong_region) (auto simp add: in_grid_def)
  finally show ?thesis .
qed

lemma fb_clear_ws_paint:
  "fb_clear_ws (Fb f) = Fb (paint in_grid (\<lambda>y x. bg_ws y) f)"
proof -
  have row: "for_loop 0 FB_W (\<lambda>x. fb_store y x (bg_ws y)) (Fb f) =
             Fb (paint (\<lambda>y' x'. y' = y \<and> in_grid y' x') (\<lambda>y x. bg_ws y) f)"
    if "0 \<le> y" "y < FB_H" for y f
  proof -
    have "for_loop 0 FB_W (\<lambda>x. fb_store y x (bg_ws y)) (Fb f) =
          Fb (paint (\<lambda>y' x'. \<exists>i. 0 \<le> i \<and> i < FB_W \<and> (y' = y \<and> x' = i)) (\<lambda>_ _. bg_ws y) f)"
      using that by (intro for_loop_paint fb_store_paint) (simp add: in_grid_def)
    also have "paint (\<lambda>y' x'. \<exists>i. 0 \<le> i \<and> i < FB_W \<and> (y' = y \<and> x' = i)) (\<lambda>_ _. bg_ws y) f =
               paint (\<lambda>y' x'. y' = y \<and> in_grid y' x') (\<lambda>_ _. bg_ws y) f"
      using that by (intro paint_cong_region) (auto simp add: in_grid_def)
    also have "\<dots> = paint (\<lambda>y' x'. y' = y \<and> in_grid y' x') (\<lambda>y x. bg_ws y) f"
      by (intro paint_cong_col) simp
    finally show ?thesis .
  qed
  have "fb_clear_ws (Fb f) =
        Fb (paint (\<lambda>y' x'. \<exists>i. 0 \<le> i \<and> i < FB_H \<and> (y' = i \<and> in_grid y' x')) (\<lambda>y x. bg_ws y) f)"
    unfolding fb_clear_ws_def by (intro for_loop_paint row) simp_all
  also have "paint (\<lambda>y' x'. \<exists>i. 0 \<le> i \<and> i < FB_H \<and> (y' = i \<and> in_grid y' x')) (\<lambda>y x. bg_ws y) f =
             paint in_grid (\<lambda>y x. bg_ws y) f"
    by (intro paint_cong_region) (auto simp add: in_grid_def)
  finally show ?thesis .
qed

section \<open>Properties of single-precision rounding\<close>

lemma ilog2_bounds:
  assumes "0 < x"
  shows "2 powi (ilog2 x) \<le> x" and "x < 2 powi (ilog2 x + 1)"
proof -
  obtain p q where pq: "quotient_of x = (p, q)" by (cases "quotient_of x")
  have q: "q > 0" using quotient_of_denom_pos[OF pq] .
  have x: "x = of_int p / of_int q" using quotient_of_div[OF pq] .
  have p: "p > 0" using assms q unfolding x by (simp add: zero_less_divide_iff)
  define bp where "bp = floorlog 2 (nat p)"
  define bq where "bq = floorlog 2 (nat q)"
  have Bp: "2 ^ (bp - 1) \<le> nat p" "nat p < 2 ^ bp"
    using floorlog_bounds[of "nat p" 2] p by (simp_all add: bp_def)
  have Bq: "2 ^ (bq - 1) \<le> nat q" "nat q < 2 ^ bq"
    using floorlog_bounds[of "nat q" 2] q by (simp_all add: bq_def)
  have bp1: "bp \<ge> 1" using p by (simp add: bp_def floorlog_def)
  have bq1: "bq \<ge> 1" using q by (simp add: bq_def floorlog_def)
  have Rp: "(2::rat) powi (int bp - 1) \<le> of_int p" "(of_int p :: rat) < 2 powi (int bp)"
  proof -
    have "(of_nat (2 ^ (bp - 1)) :: rat) \<le> of_nat (nat p)" using Bp(1) by (simp only: of_nat_le_iff)
    then have "(2::rat) ^ (bp - 1) \<le> of_int p" using p by simp
    moreover have "(2::rat) powi (int bp - 1) = 2 powi (int (bp - 1))"
      using bp1 by (simp add: of_nat_diff)
    ultimately show "(2::rat) powi (int bp - 1) \<le> of_int p" by (simp only: power_int_of_nat)
    have "(of_nat (nat p) :: rat) < of_nat (2 ^ bp)" using Bp(2) by (simp only: of_nat_less_iff)
    then show "(of_int p :: rat) < 2 powi (int bp)" using p by simp
  qed
  have Rq: "(2::rat) powi (int bq - 1) \<le> of_int q" "(of_int q :: rat) < 2 powi (int bq)"
  proof -
    have "(of_nat (2 ^ (bq - 1)) :: rat) \<le> of_nat (nat q)" using Bq(1) by (simp only: of_nat_le_iff)
    then have "(2::rat) ^ (bq - 1) \<le> of_int q" using q by simp
    moreover have "(2::rat) powi (int bq - 1) = 2 powi (int (bq - 1))"
      using bq1 by (simp add: of_nat_diff)
    ultimately show "(2::rat) powi (int bq - 1) \<le> of_int q" by (simp only: power_int_of_nat)
    have "(of_nat (nat q) :: rat) < of_nat (2 ^ bq)" using Bq(2) by (simp only: of_nat_less_iff)
    then show "(of_int q :: rat) < 2 powi (int bq)" using q by simp
  qed
  define e where "e = int bp - int bq"
  have qpos: "(0::rat) < of_int q" using q by simp
  have ppos: "(0::rat) < of_int p" using p by simp
  have up: "x < 2 powi (e + 1)"
  proof -
    have "x < 2 powi (int bp) / of_int q"
      unfolding x using Rp(2) qpos by (simp add: divide_strict_right_mono)
    also have "\<dots> \<le> 2 powi (int bp) / 2 powi (int bq - 1)"
      using Rq(1) qpos by (intro divide_left_mono) (simp_all add: zero_less_mult_iff)
    also have "\<dots> = 2 powi (int bp - (int bq - 1))"
      by (rule power_int_diff [symmetric]) simp
    also have "int bp - (int bq - 1) = e + 1"
      by (simp add: e_def)
    finally show ?thesis .
  qed
  have lo: "2 powi (e - 1) \<le> x"
  proof -
    have "e - 1 = (int bp - 1) - int bq"
      by (simp add: e_def)
    then have "2 powi (e - 1) = (2::rat) powi ((int bp - 1) - int bq)"
      by (rule arg_cong)
    also have "\<dots> = (2::rat) powi (int bp - 1) / 2 powi (int bq)"
      by (rule power_int_diff) simp
    also have "\<dots> \<le> of_int p / 2 powi (int bq)"
      using Rp(1) by (simp add: divide_right_mono)
    also have "\<dots> \<le> of_int p / of_int q"
      using Rq(2) ppos qpos by (intro divide_left_mono) (simp_all add: zero_less_mult_iff)
    finally show ?thesis by (simp add: x)
  qed
  have il: "ilog2 x = (if 2 powi e \<le> x then e else e - 1)"
    by (simp add: ilog2_def pq e_def bp_def bq_def Let_def)
  show "2 powi (ilog2 x) \<le> x" using lo by (simp add: il)
  show "x < 2 powi (ilog2 x + 1)" using up by (auto simp add: il not_le)
qed

lemma powi2_less_iff: "(2::rat) powi a < 2 powi b \<longleftrightarrow> a < b"
proof
  assume "(2::rat) powi a < 2 powi b"
  show "a < b"
  proof (rule ccontr)
    assume "\<not> a < b"
    then have "(2::rat) powi b \<le> 2 powi a" by (intro power_int_increasing) simp_all
    with \<open>(2::rat) powi a < 2 powi b\<close> show False by simp
  qed
next
  assume "a < b"
  then show "(2::rat) powi a < 2 powi b" by (intro power_int_strict_increasing) simp_all
qed

lemma powi2_le_iff: "(2::rat) powi a \<le> 2 powi b \<longleftrightarrow> a \<le> b"
  using powi2_less_iff [of b a] by (simp add: not_less [symmetric])

lemma ilog2_unique:
  assumes "0 < x" and "2 powi e \<le> x" and "x < 2 powi (e + 1)"
  shows "ilog2 x = e"
proof -
  have a: "(2::rat) powi e < 2 powi (ilog2 x + 1)"
    using assms(2) ilog2_bounds(2)[OF assms(1)] by simp
  have b: "(2::rat) powi (ilog2 x) < 2 powi (e + 1)"
    using assms(3) ilog2_bounds(1)[OF assms(1)] by simp
  have "e < ilog2 x + 1" using a by (simp only: powi2_less_iff)
  moreover have "ilog2 x < e + 1" using b by (simp only: powi2_less_iff)
  ultimately show ?thesis by simp
qed


lemma round_even_of_int [simp]: "round_even (of_int k) = k"
  by (simp add: round_even_def)

lemma round_even_bounds:
  "x - 1/2 \<le> of_int (round_even x)" "of_int (round_even x) \<le> x + 1/2"
proof -
  have fl: "of_int \<lfloor>x\<rfloor> \<le> x" "x < of_int \<lfloor>x\<rfloor> + 1" by linarith+
  show "x - 1/2 \<le> of_int (round_even x)"
    unfolding round_even_def Let_def using fl by (simp split: if_splits)
  show "of_int (round_even x) \<le> x + 1/2"
    unfolding round_even_def Let_def using fl by (simp split: if_splits) linarith
qed

lemma round_even_mono: "x \<le> y \<Longrightarrow> round_even x \<le> round_even y"
proof (cases "x = y")
  case True then show ?thesis by simp
next
  case False
  assume "x \<le> y"
  with False have "x < y" by simp
  have "of_int (round_even x) \<le> x + 1/2" by (rule round_even_bounds)
  also have "\<dots> < y + 1/2" using \<open>x < y\<close> by simp
  also have "y + 1/2 \<le> of_int (round_even y) + 1" using round_even_bounds(1)[of y] by simp
  finally have "(of_int (round_even x) :: rat) < of_int (round_even y + 1)" by simp
  then have "round_even x < round_even y + 1" by (simp only: of_int_less_iff)
  then show ?thesis by simp
qed

lemma round_even_neg: "round_even (- x) = - round_even x"
proof (cases "x = of_int \<lfloor>x\<rfloor>")
  case True
  then obtain k where "x = of_int k" ..
  then have "- x = of_int (- k)" by simp
  then show ?thesis using \<open>x = of_int k\<close> by (simp only: round_even_of_int)
next
  case False
  have fl: "of_int \<lfloor>x\<rfloor> < x" "x < of_int \<lfloor>x\<rfloor> + 1" using False by linarith+
  have nf: "\<lfloor>- x\<rfloor> = - \<lfloor>x\<rfloor> - 1" using fl by (intro floor_unique) simp_all
  show ?thesis
    using fl by (auto simp add: round_even_def Let_def nf)
qed

lemma f32_zero [simp]: "f32 0 = 0"
  by (simp add: f32_def)

lemma f32_neg: "f32 (- x) = - f32 x"
  by (simp add: f32_def Let_def round_even_neg)

text \<open>A positive value and its rounding lie in the same binade.\<close>

lemma f32_pos_bounds:
  assumes "0 < x"
  shows "2 powi (ilog2 x) \<le> f32 x" and "f32 x \<le> 2 powi (ilog2 x + 1)"
proof -
  define e where "e = ilog2 x"
  define q :: rat where "q = 2 powi (e - 23)"
  have q: "0 < q" by (simp add: q_def)
  have B: "2 powi e \<le> x" "x < 2 powi (e + 1)"
    using ilog2_bounds[OF assms] by (simp_all add: e_def)
  have f: "f32 x = of_int (round_even (x / q)) * q"
    using assms by (simp add: f32_def Let_def e_def q_def)
  have e1: "(2::rat) powi e = 2 ^ 23 * q"
  proof -
    have "(2::rat) powi e = 2 powi (23 + (e - 23))" by simp
    also have "\<dots> = 2 powi 23 * 2 powi (e - 23)" by (rule power_int_add) simp
    finally show ?thesis by (simp add: q_def)
  qed
  have e2: "(2::rat) powi (e + 1) = 2 ^ 24 * q"
  proof -
    have "(2::rat) powi (e + 1) = 2 powi (24 + (e - 23))" by (simp add: algebra_simps)
    also have "\<dots> = 2 powi 24 * 2 powi (e - 23)" by (rule power_int_add) simp
    finally show ?thesis by (simp add: q_def)
  qed
  have "of_int (2 ^ 23) \<le> x / q" using B(1) q by (simp add: e1 pos_le_divide_eq)
  then have "round_even (of_int (2 ^ 23)) \<le> round_even (x / q)" by (rule round_even_mono)
  then have "2 ^ 23 \<le> round_even (x / q)" by (simp only: round_even_of_int)
  then have "(of_int (2 ^ 23) :: rat) \<le> of_int (round_even (x / q))" by (simp only: of_int_le_iff)
  then have "2 ^ 23 * q \<le> of_int (round_even (x / q)) * q" using q by simp
  then show "2 powi (ilog2 x) \<le> f32 x" by (simp add: f e1 flip: e_def)
  have "x / q \<le> of_int (2 ^ 24)" using B(2) q by (simp add: e2 pos_divide_le_eq)
  then have "round_even (x / q) \<le> round_even (of_int (2 ^ 24))" by (rule round_even_mono)
  then have "round_even (x / q) \<le> 2 ^ 24" by (simp only: round_even_of_int)
  then have "(of_int (round_even (x / q)) :: rat) \<le> of_int (2 ^ 24)" by (simp only: of_int_le_iff)
  then have "of_int (round_even (x / q)) * q \<le> 2 ^ 24 * q" using q by simp
  then show "f32 x \<le> 2 powi (ilog2 x + 1)" by (simp add: f e2 flip: e_def)
qed

lemma f32_pos: "0 < x \<Longrightarrow> 0 < f32 x"
proof -
  assume "0 < x"
  have "(0::rat) < 2 powi (ilog2 x)" by simp
  also have "\<dots> \<le> f32 x" using \<open>0 < x\<close> by (rule f32_pos_bounds)
  finally show ?thesis .
qed

lemma ilog2_mono:
  assumes "0 < x" "x \<le> y"
  shows "ilog2 x \<le> ilog2 y"
proof -
  have "(2::rat) powi (ilog2 x) \<le> x" using assms(1) by (rule ilog2_bounds)
  also have "x \<le> y" by fact
  also have "y < 2 powi (ilog2 y + 1)" using assms by (intro ilog2_bounds) simp
  finally have "ilog2 x < ilog2 y + 1" by (simp only: powi2_less_iff)
  then show ?thesis by simp
qed

lemma f32_mono_pos:
  assumes "0 < x" "x \<le> y"
  shows "f32 x \<le> f32 y"
proof -
  have y: "0 < y" using assms by simp
  have le: "ilog2 x \<le> ilog2 y" using assms by (rule ilog2_mono)
  show ?thesis
  proof (cases "ilog2 x = ilog2 y")
    case True
    define q :: rat where "q = 2 powi (ilog2 y - 23)"
    have q: "0 < q" by (simp add: q_def)
    have "x / q \<le> y / q" using assms(2) q by (simp add: divide_right_mono)
    then have "round_even (x / q) \<le> round_even (y / q)" by (rule round_even_mono)
    then have "(of_int (round_even (x / q)) :: rat) \<le> of_int (round_even (y / q))"
      by (simp only: of_int_le_iff)
    then have "of_int (round_even (x / q)) * q \<le> of_int (round_even (y / q)) * q"
      using q by simp
    then show ?thesis using assms(1) y by (simp add: f32_def Let_def True q_def)
  next
    case False
    with le have "ilog2 x + 1 \<le> ilog2 y" by simp
    have "f32 x \<le> 2 powi (ilog2 x + 1)" using assms(1) by (rule f32_pos_bounds)
    also have "\<dots> \<le> 2 powi (ilog2 y)" using \<open>ilog2 x + 1 \<le> ilog2 y\<close> by (simp only: powi2_le_iff)
    also have "\<dots> \<le> f32 y" using y by (rule f32_pos_bounds)
    finally show ?thesis .
  qed
qed

lemma f32_mono: "x \<le> y \<Longrightarrow> f32 x \<le> f32 y"
proof -
  assume xy: "x \<le> y"
  consider "0 < x" | "x = 0" "0 < y" | "x = 0" "y = 0" | "x < 0" "0 \<le> y" | "y < 0"
    using xy by linarith
  then show ?thesis
  proof cases
    case 1 then show ?thesis using xy by (rule f32_mono_pos)
  next
    case 2 then show ?thesis using f32_pos[of y] by simp
  next
    case 3 then show ?thesis by simp
  next
    case 4
    have "0 < f32 (- x)" using 4 by (intro f32_pos) simp
    then have "f32 x < 0" by (simp add: f32_neg)
    moreover have "0 \<le> f32 y" using 4 f32_pos[of y] by (cases "y = 0") simp_all
    ultimately show ?thesis by simp
  next
    case 5
    have "f32 (- y) \<le> f32 (- x)" using 5 xy by (intro f32_mono_pos) simp_all
    then show ?thesis by (simp add: f32_neg)
  qed
qed

lemma f32_exact:
  assumes "x / 2 powi (ilog2 \<bar>x\<bar> - 23) = of_int m"
  shows "f32 x = x"
proof (cases "x = 0")
  case True then show ?thesis by simp
next
  case False
  have "f32 x = of_int (round_even (x / 2 powi (ilog2 \<bar>x\<bar> - 23))) * 2 powi (ilog2 \<bar>x\<bar> - 23)"
    using False by (simp add: f32_def Let_def)
  also have "\<dots> = x / 2 powi (ilog2 \<bar>x\<bar> - 23) * 2 powi (ilog2 \<bar>x\<bar> - 23)"
    by (simp only: assms round_even_of_int)
  also have "\<dots> = x" by simp
  finally show ?thesis .
qed

lemma f32_of_nat_exact:
  assumes "0 < n" "n \<le> 2 ^ 24"
  shows "f32 (of_int n) = of_int n"
proof -
  define e where "e = ilog2 (of_int n)"
  have pos: "(0::rat) < of_int n" using assms by simp
  have B: "2 powi e \<le> (of_int n :: rat)" "(of_int n :: rat) < 2 powi (e + 1)"
    using ilog2_bounds[OF pos] by (simp_all add: e_def)
  have "(2::rat) powi 0 \<le> of_int n" using assms by simp
  also note B(2)
  finally have e0: "0 \<le> e" by (simp only: powi2_less_iff)
  have "2 powi e \<le> (of_int n :: rat)" by fact
  also have "(of_int n :: rat) \<le> 2 powi 24" using assms(2)
    by (metis of_int_le_iff of_int_numeral of_int_power power_int_numeral)
  finally have e24: "e \<le> 24" by (simp only: powi2_le_iff)
  show ?thesis
  proof (cases "e \<le> 23")
    case True
    have "(of_int n :: rat) / 2 powi (e - 23) = of_int n * 2 powi (23 - e)"
      by (simp add: power_int_diff)
    also have "\<dots> = of_int n * 2 ^ nat (23 - e)"
      using True by (simp add: power_int_nonneg_exp)
    also have "\<dots> = of_int (n * 2 ^ nat (23 - e))" by simp
    finally have "(of_int n :: rat) / 2 powi (ilog2 \<bar>of_int n\<bar> - 23) = of_int (n * 2 ^ nat (23 - e))"
      using pos by (simp add: e_def)
    then show ?thesis by (rule f32_exact)
  next
    case False
    with e24 have e: "e = 24" by simp
    have "(of_int n :: rat) \<ge> 2 ^ 24" using B(1) by (simp add: e)
    then have "n \<ge> 2 ^ 24"
      by (metis of_int_le_iff of_int_numeral of_int_power)
    with assms have n: "n = 2 ^ 24" by simp
    have "(of_int n :: rat) / 2 powi (e - 23) = of_int (2 ^ 23)" by (simp add: e n)
    then have "(of_int n :: rat) / 2 powi (ilog2 \<bar>of_int n\<bar> - 23) = of_int (2 ^ 23)"
      using pos by (simp add: e_def)
    then show ?thesis by (rule f32_exact)
  qed
qed

lemma f32_of_int [simp]: "\<bar>n\<bar> \<le> 2 ^ 24 \<Longrightarrow> f32 (of_int n) = of_int n"
proof -
  assume a: "\<bar>n\<bar> \<le> 2 ^ 24"
  consider "n = 0" | "0 < n" | "n < 0" by linarith
  then show ?thesis
  proof cases
    case 1 then show ?thesis by simp
  next
    case 2 then show ?thesis using a by (intro f32_of_nat_exact) simp_all
  next
    case 3
    then have "f32 (of_int (- n)) = of_int (- n)" using a by (intro f32_of_nat_exact) simp_all
    then show ?thesis by (simp add: f32_neg)
  qed
qed

lemma float_of_int_exact [simp]: "\<bar>n\<bar> \<le> 2 ^ 24 \<Longrightarrow> float_of_int n = of_int n"
  by (simp add: float_of_int_def)

lemma f32_abs_le:
  assumes "\<bar>x\<bar> \<le> of_int n" "n \<le> 2 ^ 24"
  shows "\<bar>f32 x\<bar> \<le> of_int n"
proof -
  have "(0::rat) \<le> of_int n" using assms(1) by linarith
  then have n0: "0 \<le> n" by (simp only: of_int_0_le_iff)
  have e: "f32 (of_int n) = of_int n" using n0 assms(2) by (intro f32_of_int) simp
  have "f32 x \<le> f32 (of_int n)" using assms(1) by (intro f32_mono) simp
  moreover have "f32 (- of_int n) \<le> f32 x" using assms(1) by (intro f32_mono) simp
  ultimately show ?thesis by (simp add: f32_neg e abs_le_iff)
qed

section \<open>Gradient rectangles\<close>

lemma trunc0_of_int [simp]: "trunc0 (of_int k) = k"
  by (simp add: trunc0_def)

lemma uint8_small:
  "\<bar>uint (a :: 8 word)\<bar> \<le> 2 ^ 24" "\<bar>uint (b :: 8 word) - uint (a :: 8 word)\<bar> \<le> 2 ^ 24"
proof -
  have "uint a < 256" "uint b < 256"
    using uint_lt2p[of a] uint_lt2p[of b] by simp_all
  moreover have "0 \<le> uint a" "0 \<le> uint b" by (rule uint_nonnegative)+
  ultimately have s: "\<bar>uint a\<bar> \<le> 256" "\<bar>uint b - uint a\<bar> \<le> 256" by linarith+
  have l: "(256::int) \<le> 2 ^ 24" by simp
  show "\<bar>uint a\<bar> \<le> 2 ^ 24" by (rule order_trans [OF s(1) l])
  show "\<bar>uint b - uint a\<bar> \<le> 2 ^ 24" by (rule order_trans [OF s(2) l])
qed

lemma float_of_uint8: "float_of_int (uint (a :: 8 word)) = of_int (uint a)"
  by (rule float_of_int_exact) (rule uint8_small)

lemma float_of_uint8_diff:
  "float_of_int (uint (b :: 8 word) - uint (a :: 8 word)) = of_int (uint b - uint a)"
  by (rule float_of_int_exact) (rule uint8_small)

lemma f32_uint8: "f32 (of_int (uint (a :: 8 word))) = of_int (uint a)"
  by (rule f32_of_int) (rule uint8_small)

lemma f32_uint8_diff:
  "f32 (of_int (uint (b :: 8 word) - uint (a :: 8 word))) = of_int (uint b - uint a)"
  by (rule f32_of_int) (rule uint8_small)

lemma lerp_u8_0 [simp]: "lerp_u8 a b 0 = a"
proof -
  have "fadd (float_of_int (uint a)) (fmul (float_of_int (uint b - uint a)) 0) = of_int (uint a)"
    by (simp only: fadd_def fmul_def float_of_uint8 mult_zero_right f32_zero add_0_right f32_uint8)
  then show ?thesis by (simp only: lerp_u8_def u8_of_float_def trunc0_of_int word_of_int_uint)
qed

lemma lerp_u8_1 [simp]: "lerp_u8 a b 1 = b"
proof -
  have "(of_int (uint a) :: rat) + of_int (uint b - uint a) = of_int (uint b)" by simp
  then have "fadd (float_of_int (uint a)) (fmul (float_of_int (uint b - uint a)) 1) = of_int (uint b)"
    by (simp only: fadd_def fmul_def float_of_uint8 float_of_uint8_diff mult_1_right f32_uint8_diff
          f32_uint8)
  then show ?thesis by (simp only: lerp_u8_def u8_of_float_def trunc0_of_int word_of_int_uint)
qed

lemma grad_color_0 [simp]: "grad_color ctop cbot 0 = ctop"
  by (simp add: grad_color_def rgb_def)

lemma grad_color_1 [simp]: "grad_color ctop cbot 1 = cbot"
  by (simp add: grad_color_def rgb_def)

lemma grad_t_first [simp]: "grad_t y0 y0 h = 0"
  by (simp add: grad_t_def fdiv_def)

lemma grad_t_last:
  assumes "1 < h" "h \<le> 2 ^ 24"
  shows "grad_t (y0 + h - 1) y0 h = 1"
proof -
  have "float_of_int (h - 1) = of_int (h - 1)" using assms by (intro float_of_int_exact) simp
  moreover have "(of_int (h - 1) :: rat) \<noteq> 0" using assms by simp
  moreover have "f32 1 = 1" using f32_of_int[of 1] by simp
  ultimately show ?thesis using assms by (simp add: grad_t_def fdiv_def del: of_int_diff)
qed

text \<open>
  C6. For a rectangle that lies in the framebuffer, \<open>fb_rect_grad_v\<close> with height
  \<open>h > 1\<close> leaves every pixel of the first row equal to the top colour and every pixel
  of the last row equal to the bottom colour, exactly; with \<open>h = 1\<close> every pixel of the
  row is the top colour.
\<close>

theorem fb_rect_grad_v_first_last_row:
  assumes "0 \<le> x0" "0 \<le> y0" "x0 + w \<le> FB_W" "y0 + h \<le> FB_H" "x0 \<le> x" "x < x0 + w"
  shows "(1 < h \<longrightarrow>
            pix (fb_rect_grad_v x0 y0 w h ctop cbot (Fb f)) x y0 = Some ctop \<and>
            pix (fb_rect_grad_v x0 y0 w h ctop cbot (Fb f)) x (y0 + h - 1) = Some cbot) \<and>
         (h = 1 \<longrightarrow> pix (fb_rect_grad_v x0 y0 w h ctop cbot (Fb f)) x y0 = Some ctop)"
proof -
  have last: "grad_t (y0 + h - 1) y0 h = 1" if "1 < h"
    using that assms by (intro grad_t_last) simp_all
  show ?thesis
    using assms last
    by (auto simp add: fb_rect_grad_v_paint pix_def paint_def in_rect_def in_grid_def)
qed

theorem fb_rect_grad_v_first_last_row_witness:
  "pix (fb_rect_grad_v 0 4 FB_W 36 COL_HEADER (rgb 30 55 140) fb_init) 5 4 = Some COL_HEADER \<and>
   pix (fb_rect_grad_v 0 4 FB_W 36 COL_HEADER (rgb 30 55 140) fb_init) 5 39 = Some (rgb 30 55 140) \<and>
   pix (fb_rect_grad_v 7 9 3 1 COL_GOLD COL_CYAN fb_init) 8 9 = Some COL_GOLD"
  using fb_rect_grad_v_first_last_row [of 0 4 FB_W 36 5 COL_HEADER "rgb 30 55 140" "\<lambda>y x. rgb 0 0 0"]
        fb_rect_grad_v_first_last_row [of 7 9 3 1 8 COL_GOLD COL_CYAN "\<lambda>y x. rgb 0 0 0"]
  by (simp add: fb_init_def)

section \<open>Font renderer: string width and advance\<close>

lemma fb_string_loop_px:
  "fst (fb_string_loop px py s fg scale st) = px + int (strlen s) * 6 * scale"
  by (induction s arbitrary: px st) (simp_all add: algebra_simps)

lemma int32_id: "- 2147483648 \<le> v \<Longrightarrow> v \<le> 2147483647 \<Longrightarrow> int32 v = v"
  by (simp add: int32_def)

lemma fb_string_width_in_range:
  assumes "1 \<le> scale" "int (strlen s) * 6 * scale \<le> 2147483647"
  shows "fb_string_width s scale = int (strlen s) * 6 * scale"
proof -
  define n where "n = int (strlen s) * 6"
  have "n * 1 \<le> n * scale"
    using assms(1) by (intro mult_left_mono) (simp_all add: n_def)
  then have "n \<le> 2147483647" using assms(2) unfolding n_def by linarith
  then have 6: "int (strlen s) * 6 \<le> 2147483647" by (simp add: n_def)
  then have 1: "int32 (int (strlen s)) = int (strlen s)" by (intro int32_id) simp_all
  have 2: "int32 (int (strlen s) * 6) = int (strlen s) * 6" using 6 by (intro int32_id) simp_all
  have "0 \<le> int (strlen s) * 6 * scale" using assms(1) by simp
  then have 3: "int32 (int (strlen s) * 6 * scale) = int (strlen s) * 6 * scale"
    using assms(2) by (intro int32_id) simp_all
  show ?thesis by (simp only: fb_string_width_def 1 2 3)
qed

lemma strlen_replicate: "c \<noteq> CHR 0x00 \<Longrightarrow> strlen (replicate n c) = n"
  by (induction n) simp_all

text \<open>
  C7 (as stated). The claim is for every string. The width is computed in \<^verbatim>\<open>int\<close>: for a
  string of 71582789 characters at scale 5 the product \<open>len(s) * 6 * scale\<close> is 2147483670,
  more than the largest \<^verbatim>\<open>int\<close>, and \<open>fb_string_width\<close> is not that number.
\<close>

theorem fb_string_width_overflows:
  "strlen (replicate 71582789 CHR ''A'') = 71582789 \<and>
   int (strlen (replicate 71582789 CHR ''A'')) * 6 * 5 = 2147483670 \<and>
   fb_string_width (replicate 71582789 CHR ''A'') 5 = - 2147483626 \<and>
   fb_string_width (replicate 71582789 CHR ''A'') 5 \<noteq>
     int (strlen (replicate 71582789 CHR ''A'')) * 6 * 5"
  by (simp add: strlen_replicate fb_string_width_def int32_def)

text \<open>
  C7 (amended). For every scale from 1 to 5 and every string \<open>s\<close> whose width
  \<open>len(s) * 6 * scale\<close> is at most 2147483647, the largest \<^verbatim>\<open>int\<close>, \<open>fb_string_width s scale\<close>
  is \<open>len(s) * 6 * scale\<close>, and this is the total horizontal advance of \<open>fb_string\<close>: the
  difference between the value of its pen position \<open>px\<close> when the loop ends and the
  position it started from, whatever the glyphs are. The pen starts where its last
  position, \<open>px + len(s) * 6 * scale\<close>, is still an \<^verbatim>\<open>int\<close>.
\<close>

theorem fb_string_width_matches_advance:
  assumes "scale \<in> {1..5}" "int (strlen s) * 6 * scale \<le> 2147483647"
    and "- 2147483648 \<le> px" "px + int (strlen s) * 6 * scale \<le> 2147483647"
  shows "fb_string_width s scale = int (strlen s) * 6 * scale \<and>
         fst (fb_string_loop px py s fg scale st) - px = fb_string_width s scale"
  using assms by (simp add: fb_string_width_in_range fb_string_loop_px)

theorem fb_string_width_matches_advance_witness:
  "(2::int) \<in> {1..5} \<and> int (strlen ''SAT'') * 6 * 2 \<le> 2147483647 \<and>
   fb_string_width ''SAT'' 2 = 36 \<and>
   fst (fb_string_loop 62 282 ''SAT'' COL_WHITE 2 (Fb (\<lambda>y x. COL_GOLD))) - 62 = 36"
  using fb_string_width_matches_advance [of 2 "''SAT''" 62 282 COL_WHITE "Fb (\<lambda>y x. COL_GOLD)"]
  by simp

section \<open>The two background gradients\<close>

lemma f32_one [simp]: "f32 1 = 1"
  using f32_of_int[of 1] by simp

lemma bg_t_range:
  assumes "0 \<le> y" "y < FB_H"
  shows "0 \<le> fdiv (float_of_int y) (float_of_int FB_H)" "fdiv (float_of_int y) (float_of_int FB_H) \<le> 1"
proof -
  have y: "float_of_int y = of_int y" using assms by (intro float_of_int_exact) simp
  have h: "float_of_int FB_H = 400" using float_of_int_exact[of 400] by simp
  have "f32 0 \<le> f32 (of_int y / 400)" using assms by (intro f32_mono) simp
  then show "0 \<le> fdiv (float_of_int y) (float_of_int FB_H)" by (simp add: fdiv_def y h)
  have "f32 (of_int y / 400) \<le> f32 1" using assms by (intro f32_mono) simp
  then show "fdiv (float_of_int y) (float_of_int FB_H) \<le> 1" by (simp add: fdiv_def y h)
qed

lemma uint_word_of_int_8:
  "0 \<le> n \<Longrightarrow> n < 256 \<Longrightarrow> uint (word_of_int n :: 8 word) = n"
  by (simp add: uint_word_of_int)

text \<open>The two channel expressions on a falling gradient (\<open>b \<le> a\<close>).\<close>

lemma lerp_int_vs_lerp_u8:
  fixes a b :: "8 word"
  assumes ba: "uint b \<le> uint a" and t: "0 \<le> t" "t \<le> 1"
  shows "uint (lerp_int a b t) = uint (lerp_u8 a b t) \<or> uint (lerp_int a b t) = uint (lerp_u8 a b t) + 1"
proof -
  define A where "A = uint a"
  define B where "B = uint b"
  have A: "0 \<le> A" "A < 256" using uint_lt2p[of a] by (simp_all add: A_def)
  have B: "0 \<le> B" "B \<le> A" using ba by (simp_all add: A_def B_def)
  define x where "x = f32 (of_int (B - A) * t)"
  have xl: "of_int (B - A) \<le> x"
  proof -
    have "(of_int (B - A) :: rat) * 1 \<le> of_int (B - A) * t"
      using t B by (intro mult_left_mono_neg) simp_all
    then have "f32 (of_int (B - A)) \<le> f32 (of_int (B - A) * t)"
      by (intro f32_mono) simp
    moreover have "f32 (of_int (B - A)) = of_int (B - A)" using A B by (intro f32_of_int) simp
    ultimately show ?thesis by (simp add: x_def)
  qed
  have xu: "x \<le> 0"
  proof -
    have "(of_int (B - A) :: rat) * t \<le> 0"
      using t B by (intro mult_nonpos_nonneg) simp_all
    then have "f32 (of_int (B - A) * t) \<le> f32 0"
      by (intro f32_mono)
    then show ?thesis by (simp add: x_def)
  qed
  define k where "k = - \<lfloor>- x\<rfloor>"
  have k: "x \<le> of_int k" "of_int k - 1 < x" unfolding k_def by (simp; linarith)+
  have tr: "trunc0 x = k" using xu by (cases "x = 0") (simp_all add: trunc0_def k_def)
  have kl: "B - A \<le> k"
  proof -
    have "(of_int (B - A) :: rat) \<le> of_int k" using xl k(1) by (rule order_trans)
    then show ?thesis by (simp only: of_int_le_iff)
  qed
  have ku: "k \<le> 0"
  proof -
    have "(of_int k :: rat) < of_int 1" using k(2) xu by simp
    then have "k < 1" by (simp only: of_int_less_iff)
    then show ?thesis by simp
  qed
  have ws: "uint (lerp_int a b t) = A + k"
  proof -
    have "lerp_int a b t = word_of_int (A + k)"
      using tr by (simp add: lerp_int_def fmul_def float_of_uint8_diff x_def A_def B_def del: of_int_diff)
    moreover have "0 \<le> A + k" "A + k < 256" using kl ku A B by simp_all
    ultimately show ?thesis by (simp only: uint_word_of_int_8)
  qed
  define v where "v = f32 (of_int A + x)"
  have vu: "v \<le> of_int (A + k)"
  proof -
    have "f32 (of_int A + x) \<le> f32 (of_int (A + k))" using k(1) by (intro f32_mono) simp
    moreover have "f32 (of_int (A + k)) = of_int (A + k)" using A B kl ku by (intro f32_of_int) simp
    ultimately show ?thesis by (simp add: v_def)
  qed
  have vl: "of_int (A + k - 1) \<le> v"
  proof -
    have "f32 (of_int (A + k - 1)) \<le> f32 (of_int A + x)" using k(2) by (intro f32_mono) simp
    moreover have "f32 (of_int (A + k - 1)) = of_int (A + k - 1)" using A B kl ku by (intro f32_of_int) simp
    ultimately show ?thesis by (simp add: v_def)
  qed
  have v0: "0 \<le> v"
  proof -
    have "f32 0 \<le> f32 (of_int A + x)" using xl B by (intro f32_mono) simp
    then show ?thesis by (simp add: v_def)
  qed
  have fl: "\<lfloor>v\<rfloor> = A + k \<or> \<lfloor>v\<rfloor> = A + k - 1"
  proof -
    have "A + k - 1 \<le> \<lfloor>v\<rfloor>" using vl by (simp only: le_floor_iff)
    moreover have "\<lfloor>v\<rfloor> \<le> A + k" using vu by (simp add: floor_le_iff) 
    ultimately show ?thesis by linarith
  qed
  have fl0: "0 \<le> \<lfloor>v\<rfloor>" using v0 by simp
  have fbh: "uint (lerp_u8 a b t) = \<lfloor>v\<rfloor>"
  proof -
    have "lerp_u8 a b t = word_of_int \<lfloor>v\<rfloor>"
      using v0 by (simp add: lerp_u8_def u8_of_float_def fadd_def fmul_def float_of_uint8
            float_of_uint8_diff trunc0_def v_def x_def A_def B_def del: of_int_diff)
    moreover have "\<lfloor>v\<rfloor> < 256" using fl A ku by linarith
    ultimately show ?thesis using fl0 by (simp only: uint_word_of_int_8)
  qed
  show ?thesis using fl by (auto simp add: ws fbh)
qed


lemma bg_channels_differ_by_at_most_one:
  assumes "0 \<le> y" "y < FB_H"
  shows "uint (cr (bg_ws y)) = uint (cr (fb_bg_at y)) \<or> uint (cr (bg_ws y)) = uint (cr (fb_bg_at y)) + 1"
    and "uint (cg (bg_ws y)) = uint (cg (fb_bg_at y)) \<or> uint (cg (bg_ws y)) = uint (cg (fb_bg_at y)) + 1"
    and "uint (cb (bg_ws y)) = uint (cb (fb_bg_at y)) \<or> uint (cb (bg_ws y)) = uint (cb (fb_bg_at y)) + 1"
  using bg_t_range[OF assms]
  by (simp_all add: bg_ws_def fb_bg_at_def Let_def rgb_def lerp_int_vs_lerp_u8
        COL_GRADTOP_def COL_GRADBOT_def)

lemma bg_t_row1: "fdiv (float_of_int 1) (float_of_int FB_H) = 5368709 / 2147483648"
  by code_simp

lemma lerp_u8_row1_r: "lerp_u8 20 5 (5368709 / 2147483648) = 19"
proof -
  have x: "fmul (float_of_int (uint (5::8 word) - uint (20::8 word))) (5368709 / 2147483648) = - (10066329 / 268435456)"
    by code_simp
  have v: "fadd (float_of_int (uint (20::8 word))) (- (10066329 / 268435456)) = 10466099 / 524288"
    by code_simp
  have r: "u8_of_float (10466099 / 524288) = 19"
    by code_simp
  show ?thesis by (simp only: lerp_u8_def x v r)
qed

lemma lerp_int_row1_r: "lerp_int 20 5 (5368709 / 2147483648) = 20"
proof -
  have x: "fmul (float_of_int (uint (5::8 word) - uint (20::8 word))) (5368709 / 2147483648) = - (10066329 / 268435456)"
    by code_simp
  have r: "(word_of_int (uint (20::8 word) + trunc0 (- (10066329 / 268435456))) :: 8 word) = 20"
    by code_simp
  show ?thesis by (simp only: lerp_int_def x r)
qed

lemma lerp_u8_row1_g: "lerp_u8 40 15 (5368709 / 2147483648) = 39"
proof -
  have x: "fmul (float_of_int (uint (15::8 word) - uint (40::8 word))) (5368709 / 2147483648) = - (1 / 16)"
    by code_simp
  have v: "fadd (float_of_int (uint (40::8 word))) (- (1 / 16)) = 639 / 16"
    by code_simp
  have r: "u8_of_float (639 / 16) = 39"
    by code_simp
  show ?thesis by (simp only: lerp_u8_def x v r)
qed

lemma lerp_int_row1_g: "lerp_int 40 15 (5368709 / 2147483648) = 40"
proof -
  have x: "fmul (float_of_int (uint (15::8 word) - uint (40::8 word))) (5368709 / 2147483648) = - (1 / 16)"
    by code_simp
  have r: "(word_of_int (uint (40::8 word) + trunc0 (- (1 / 16))) :: 8 word) = 40"
    by code_simp
  show ?thesis by (simp only: lerp_int_def x r)
qed

lemma lerp_u8_row1_b: "lerp_u8 120 60 (5368709 / 2147483648) = 119"
proof -
  have x: "fmul (float_of_int (uint (60::8 word) - uint (120::8 word))) (5368709 / 2147483648) = - (10066329 / 67108864)"
    by code_simp
  have v: "fadd (float_of_int (uint (120::8 word))) (- (10066329 / 67108864)) = 15708979 / 131072"
    by code_simp
  have r: "u8_of_float (15708979 / 131072) = 119"
    by code_simp
  show ?thesis by (simp only: lerp_u8_def x v r)
qed

lemma lerp_int_row1_b: "lerp_int 120 60 (5368709 / 2147483648) = 120"
proof -
  have x: "fmul (float_of_int (uint (60::8 word) - uint (120::8 word))) (5368709 / 2147483648) = - (10066329 / 67108864)"
    by code_simp
  have r: "(word_of_int (uint (120::8 word) + trunc0 (- (10066329 / 67108864))) :: 8 word) = 120"
    by code_simp
  show ?thesis by (simp only: lerp_int_def x r)
qed

lemma fb_bg_at_row1: "fb_bg_at 1 = rgb 19 39 119"
  by (simp only: fb_bg_at_def Let_def bg_t_row1 COL_GRADTOP_def COL_GRADBOT_def rgb_def
        rgb_t.select_convs lerp_u8_row1_r lerp_u8_row1_g lerp_u8_row1_b)

lemma bg_ws_row1: "bg_ws 1 = rgb 20 40 120"
  by (simp only: bg_ws_def Let_def bg_t_row1 COL_GRADTOP_def COL_GRADBOT_def rgb_def
        rgb_t.select_convs lerp_int_row1_r lerp_int_row1_g lerp_int_row1_b)

lemma trunc0_zero [simp]: "trunc0 0 = 0"
  by (simp add: trunc0_def)

lemma lerp_int_0 [simp]: "lerp_int a b 0 = a"
  by (simp add: lerp_int_def fmul_def)

lemma bg_row0: "fb_bg_at 0 = COL_GRADTOP" "bg_ws 0 = COL_GRADTOP"
  by (simp_all add: fb_bg_at_def bg_ws_def fdiv_def rgb_def)

lemma pix_fb_clear: "in_grid y x \<Longrightarrow> pix (fb_clear (Fb f)) x y = Some (fb_bg_at y)"
  by (simp add: fb_clear_paint pix_def paint_def)

lemma pix_fb_clear_ws: "in_grid y x \<Longrightarrow> pix (fb_clear_ws (Fb f)) x y = Some (bg_ws y)"
  by (simp add: fb_clear_ws_paint pix_def paint_def)

text \<open>
  C3 (as stated). The claim says that the two \<open>fb_clear\<close> give every row the same colour.
  Row 1 refutes it: fb.h rounds \<open>20 - 0.0375\<close> down to 19, weatherstar.c adds the
  truncated \<open>-0.0375\<close>, which is 0, to 20.
\<close>

theorem fb_clear_variants_differ_at_row_1:
  "pix (fb_clear fb_init) 0 1 = Some (rgb 19 39 119) \<and>
   pix (fb_clear_ws fb_init) 0 1 = Some (rgb 20 40 120) \<and>
   pix (fb_clear fb_init) 0 1 \<noteq> pix (fb_clear_ws fb_init) 0 1"
  by (simp add: fb_init_def pix_fb_clear pix_fb_clear_ws in_grid_def fb_bg_at_row1 bg_ws_row1 rgb_def)

text \<open>
  C3 (amended). On every row of the framebuffer the two \<open>fb_clear\<close> give colours whose
  channels are equal or differ by one, the channel of weatherstar.c being the larger; on
  row 0 both give the top colour of the gradient.
\<close>

theorem fb_clear_variants_within_one:
  assumes "0 \<le> y" "y < FB_H" "0 \<le> x" "x < FB_W"
  shows "pix (fb_clear (Fb f)) x y = Some (fb_bg_at y) \<and>
         pix (fb_clear_ws (Fb f')) x y = Some (bg_ws y) \<and>
         (uint (cr (bg_ws y)) = uint (cr (fb_bg_at y)) \<or>
          uint (cr (bg_ws y)) = uint (cr (fb_bg_at y)) + 1) \<and>
         (uint (cg (bg_ws y)) = uint (cg (fb_bg_at y)) \<or>
          uint (cg (bg_ws y)) = uint (cg (fb_bg_at y)) + 1) \<and>
         (uint (cb (bg_ws y)) = uint (cb (fb_bg_at y)) \<or>
          uint (cb (bg_ws y)) = uint (cb (fb_bg_at y)) + 1) \<and>
         (y = 0 \<longrightarrow> fb_bg_at y = COL_GRADTOP \<and> bg_ws y = COL_GRADTOP)"
  using assms bg_channels_differ_by_at_most_one[of y]
  by (simp add: pix_fb_clear pix_fb_clear_ws in_grid_def bg_row0)

theorem fb_clear_variants_within_one_witness:
  "pix (fb_clear fb_init) 7 0 = Some COL_GRADTOP \<and>
   pix (fb_clear_ws fb_init) 7 0 = Some COL_GRADTOP"
  using fb_clear_variants_within_one [of 0 7 "\<lambda>y x. rgb 0 0 0" "\<lambda>y x. rgb 0 0 0"]
  by (simp add: fb_init_def)

section \<open>Terminal export\<close>

text \<open>The cell that the code prints is the cell of the contract.\<close>

lemma digit_char: "d < 10 \<Longrightarrow> char_of (48 + d) = digit d"
proof -
  assume "d < 10"
  then have "d \<in> {0, 1, 2, 3, 4, 5, 6, 7, 8, 9}" by auto
  then show ?thesis by (auto simp add: digit_def char_of_eq_iff take_bit_eq_mod)
qed

lemma dec_nat_digit: "n < 10 \<Longrightarrow> dec_nat n = [digit n]"
  by (subst dec_nat.simps) (simp add: digit_char)

lemma dec_nat_step: "10 \<le> n \<Longrightarrow> dec_nat n = dec_nat (n div 10) @ [digit (n mod 10)]"
  by (subst dec_nat.simps) (simp add: digit_char)

lemma dec_nat_channel: "n < 256 \<Longrightarrow> dec_nat n = channel n"
proof -
  assume n: "n < 256"
  consider "n < 10" | "10 \<le> n" "n < 100" | "100 \<le> n" by linarith
  then show ?thesis
  proof cases
    case 1
    then show ?thesis by (simp add: channel_def dec_nat_digit)
  next
    case 2
    then have "n div 10 < 10" by simp
    then show ?thesis using 2 by (simp add: channel_def dec_nat_step dec_nat_digit)
  next
    case 3
    then have "10 \<le> n div 10" "n div 10 div 10 < 10" using n by simp_all
    then show ?thesis
      using 3 by (simp add: channel_def dec_nat_step [of n] dec_nat_step [of "n div 10"]
                    dec_nat_digit div_mult2_eq [symmetric])
  qed
qed

lemma dec_u8_channel: "dec (uint (c :: 8 word)) = channel (unat c)"
proof -
  have "uint c < 256" using uint_lt2p[of c] by simp
  then have "nat (uint c) < 256" by linarith
  then have "dec_nat (nat (uint c)) = channel (nat (uint c))" by (rule dec_nat_channel)
  moreover have "dec (uint c) = dec_nat (nat (uint c))" by (simp add: dec_def)
  moreover have "nat (uint c) = unat c" by (simp only: unat_eq_nat_uint)
  ultimately show ?thesis by (simp only:)
qed

lemma ansi_cell_spec: "ansi_cell ctop cbot = half_block_cell ctop cbot"
  by (simp add: ansi_cell_def half_block_def half_block_cell_def channels_def dec_u8_channel)

lemma ansi_line_spec_code:
  "ansi_line_spec f k =
     concat (map (\<lambda>x. ansi_cell (f (2 * k) x) (f (2 * k + 1) x)) [0..FB_W - 1]) @ sgr_reset @ [NL]"
  by (simp add: ansi_line_spec_def ansi_cell_spec sgr_reset_def)

lemma ansi_spec_code:
  "ansi_spec f = clear_screen @ concat (map (ansi_line_spec f) [0..199]) @ sgr_reset"
  by (simp add: ansi_spec_def clear_screen_def sgr_reset_def)

lemma channels_gold: "channels (rgb 255 200 50) = ''255;200;50''"
  by (simp add: channels_def channel_def digit_def rgb_def)

lemma for_loop_append:
  "for_loop lo n (\<lambda>x out. out @ g x) out = out @ concat (map g [lo..n - 1])"
proof (induction lo n "\<lambda>x out. out @ g x" out rule: for_loop.induct)
  case (1 i n out)
  show ?case
  proof (cases "i < n")
    case True
    then have "[i..n - 1] = i # [i + 1..n - 1]" by (intro upto_rec1) simp
    then show ?thesis using True 1 by (simp add: for_loop_step)
  next
    case False
    then show ?thesis by (simp add: for_loop_stop)
  qed
qed

lemma cell_at_pair: "y + 1 < FB_H \<Longrightarrow> cell_at f y x = ansi_cell (f y x) (f (y + 1) x)"
  by (simp add: cell_at_def)

lemma ansi_rows_ws_spec:
  "0 \<le> k \<Longrightarrow> k \<le> 200 \<Longrightarrow>
   ansi_rows_ws f (2 * k) out = out @ concat (map (ansi_line_spec f) [k..199])"
proof (induction "nat (200 - k)" arbitrary: k out)
  case 0
  then have "k = 200" by simp
  then show ?case by (simp add: ansi_rows_ws.simps)
next
  case (Suc n)
  then have k: "k < 200" by simp
  have line: "for_loop 0 FB_W (\<lambda>x out. out @ cell_at f (2 * k) x) out @ sgr_reset @ [NL] =
              out @ ansi_line_spec f k"
    using k by (simp add: for_loop_append ansi_line_spec_code cell_at_pair)
  have step: "2 * k + 2 = 2 * (k + 1)" by simp
  have "ansi_rows_ws f (2 * k) out = ansi_rows_ws f (2 * (k + 1)) (out @ ansi_line_spec f k)"
    using k by (subst ansi_rows_ws.simps) (simp only: line step, simp)
  also have "\<dots> = (out @ ansi_line_spec f k) @ concat (map (ansi_line_spec f) [k + 1..199])"
    using Suc(2) Suc(3) k by (intro Suc(1)) simp_all
  also have "\<dots> = out @ concat (map (ansi_line_spec f) [k..199])"
    using k by (simp add: upto_rec1[of k 199])
  finally show ?case .
qed

lemma ansi_output_ws_spec: "ansi_output_ws f = ansi_spec f"
  using ansi_rows_ws_spec[of 0 f clear_screen] by (simp add: ansi_output_ws_def ansi_spec_code)

text \<open>The length of a cell, and the line buffer of screenshot.h.\<close>

lemma length_dec_nat: "n < 1000 \<Longrightarrow> length (dec_nat n) \<le> 3"
  by (subst dec_nat.simps, subst dec_nat.simps, subst dec_nat.simps) simp

lemma length_dec_u8: "length (dec (uint (c :: 8 word))) \<le> 3"
proof -
  have "uint c < 256" using uint_lt2p[of c] by simp
  then have "unat c < 1000" unfolding unat_eq_nat_uint by linarith
  then show ?thesis by (simp add: dec_def length_dec_nat)
qed

lemma length_ansi_cell: "length (ansi_cell ctop cbot) \<le> 41"
  using length_dec_u8[of "cr ctop"] length_dec_u8[of "cg ctop"] length_dec_u8[of "cb ctop"]
        length_dec_u8[of "cr cbot"] length_dec_u8[of "cg cbot"] length_dec_u8[of "cb cbot"]
  by (simp add: ansi_cell_def half_block_def)

lemma line_loop_fits:
  assumes len: "\<And>x. length (g x) \<le> 41"
  shows "0 \<le> lo \<Longrightarrow> n \<le> FB_W \<Longrightarrow> length l \<le> 41 * nat lo \<Longrightarrow>
         for_loop lo n (\<lambda>x. line_printf (g x)) (Some l) = Some (l @ concat (map g [lo..n - 1]))"
proof (induction "nat (n - lo)" arbitrary: lo l)
  case 0
  then show ?case by (simp add: for_loop_stop)
next
  case (Suc m)
  then have lt: "lo < n" by simp
  have "length l + length (g lo) \<le> 41 * nat lo + 41" using Suc(5) len[of lo] by simp
  also have "\<dots> \<le> 41 * 640" using lt Suc(3,4) by simp
  finally have fit: "length l + length (g lo) < LINE_SIZE" by (simp add: LINE_SIZE_def)
  have "for_loop lo n (\<lambda>x. line_printf (g x)) (Some l) =
        for_loop (lo + 1) n (\<lambda>x. line_printf (g x)) (Some (l @ g lo))"
    using lt fit by (simp add: for_loop_step line_printf_def)
  also have "\<dots> = Some ((l @ g lo) @ concat (map g [lo + 1..n - 1]))"
  proof (rule Suc(1))
    show "m = nat (n - (lo + 1))" using Suc(2) by simp
    show "0 \<le> lo + 1" using Suc(3) by simp
    show "n \<le> FB_W" by fact
    have "length (l @ g lo) \<le> 41 * nat lo + 41" using Suc(5) len[of lo] by simp
    also have "\<dots> = 41 * nat (lo + 1)" using Suc(3) by (simp add: nat_add_distrib)
    finally show "length (l @ g lo) \<le> 41 * nat (lo + 1)" .
  qed
  also have "\<dots> = Some (l @ concat (map g [lo..n - 1]))"
    using lt by (simp add: upto_rec1[of lo "n - 1"])
  finally show ?case .
qed

lemma length_concat_cells:
  assumes "\<And>x. length (g x) \<le> 41"
  shows "length (concat (map g xs)) \<le> 41 * length xs"
proof (induction xs)
  case Nil
  then show ?case by simp
next
  case (Cons a xs)
  then show ?case using assms[of a] by simp
qed

lemma ansi_line_buffer:
  assumes "y + 1 < FB_H"
  shows "line_printf (sgr_reset @ [NL])
           (for_loop 0 FB_W (\<lambda>x. line_printf (cell_at f y x)) (Some [])) =
         Some (concat (map (\<lambda>x. ansi_cell (f y x) (f (y + 1) x)) [0..FB_W - 1]) @ sgr_reset @ [NL])"
proof -
  define cells where "cells = concat (map (\<lambda>x. cell_at f y x) [0..FB_W - 1])"
  have len: "length (cell_at f y x) \<le> 41" for x
    by (simp add: cell_at_def Let_def length_ansi_cell)
  have loop: "for_loop 0 FB_W (\<lambda>x. line_printf (cell_at f y x)) (Some []) = Some ([] @ cells)"
    unfolding cells_def using len by (rule line_loop_fits) simp_all
  have "length cells \<le> 41 * length [0..FB_W - 1]"
    unfolding cells_def using len by (rule length_concat_cells)
  then have "length cells \<le> 41 * 640" by simp
  then have "line_printf (sgr_reset @ [NL]) (Some ([] @ cells)) = Some (cells @ sgr_reset @ [NL])"
    by (simp add: line_printf_def LINE_SIZE_def sgr_reset_def)
  moreover have "cells = concat (map (\<lambda>x. ansi_cell (f y x) (f (y + 1) x)) [0..FB_W - 1])"
  proof -
    have "cell_at f y = (\<lambda>x. ansi_cell (f y x) (f (y + 1) x))"
      using assms by (simp add: fun_eq_iff cell_at_pair)
    then show ?thesis by (simp add: cells_def)
  qed
  ultimately show ?thesis by (simp only: loop)
qed

lemma ansi_rows_spec:
  "0 \<le> k \<Longrightarrow> k \<le> 200 \<Longrightarrow>
   ansi_rows f (2 * k) (Some out) = Some (out @ concat (map (ansi_line_spec f) [k..199]))"
proof (induction "nat (200 - k)" arbitrary: k out)
  case 0
  then have "k = 200" by simp
  then show ?case by (simp add: ansi_rows.simps)
next
  case (Suc n)
  then have k: "k < 200" by simp
  have line: "line_printf (sgr_reset @ [NL])
                (for_loop 0 FB_W (\<lambda>x. line_printf (cell_at f (2 * k) x)) (Some [])) =
              Some (ansi_line_spec f k)"
    using k by (simp add: ansi_line_buffer ansi_line_spec_code)
  have step: "2 * k + 2 = 2 * (k + 1)" by simp
  have "ansi_rows f (2 * k) (Some out) = ansi_rows f (2 * (k + 1)) (Some (out @ ansi_line_spec f k))"
    using k by (subst ansi_rows.simps) (simp only: line step, simp)
  also have "\<dots> = Some ((out @ ansi_line_spec f k) @ concat (map (ansi_line_spec f) [k + 1..199]))"
    using Suc(2) Suc(3) k by (intro Suc(1)) simp_all
  also have "\<dots> = Some (out @ concat (map (ansi_line_spec f) [k..199]))"
    using k by (simp add: upto_rec1[of k 199])
  finally show ?case .
qed

lemma ansi_output_spec: "ansi_output f = Some (ansi_spec f)"
  using ansi_rows_spec[of 0 f clear_screen] by (simp add: ansi_output_def ansi_spec_code)

text \<open>Counting the lines: a cell holds no newline.\<close>

lemma NL_notin_dec_nat: "NL \<notin> set (dec_nat n)"
proof (induction n rule: dec_nat.induct)
  case (1 n)
  have d: "char_of (48 + m) \<noteq> NL" if "m < 10" for m :: nat
    using that by (simp add: char_of_eq_iff take_bit_eq_mod)
  show ?case
  proof (cases "n < 10")
    case True
    then show ?thesis using d[of n] by (subst dec_nat.simps) simp
  next
    case False
    then show ?thesis using 1 d[of "n mod 10"] by (subst dec_nat.simps) simp
  qed
qed

lemma NL_notin_dec_u8: "NL \<notin> set (dec (uint (c :: 8 word)))"
  by (simp add: dec_def NL_notin_dec_nat)

lemma NL_notin_cell: "NL \<notin> set (ansi_cell ctop cbot)"
  by (simp add: ansi_cell_def half_block_def NL_notin_dec_u8)

lemma count_lines_append [simp]: "count_lines (a @ b) = count_lines a + count_lines b"
  by (simp add: count_lines_def)

lemma count_lines_none: "NL \<notin> set cs \<Longrightarrow> count_lines cs = 0"
  by (induction cs) (auto simp add: count_lines_def)

lemma count_lines_cells: "count_lines (concat (map (\<lambda>x. ansi_cell (g x) (h x)) xs)) = 0"
  by (induction xs) (simp_all add: count_lines_def count_lines_none[unfolded count_lines_def] NL_notin_cell)

lemma count_lines_line: "count_lines (ansi_line_spec f k) = 1"
  by (simp add: ansi_line_spec_code count_lines_cells)
     (simp add: count_lines_def sgr_reset_def)

lemma count_lines_lines: "count_lines (concat (map (ansi_line_spec f) ks)) = length ks"
  by (induction ks) (simp_all add: count_lines_line, simp add: count_lines_def)

lemma count_lines_ansi_spec: "count_lines (ansi_spec f) = 200"
  by (simp add: ansi_spec_code count_lines_lines)
     (simp add: count_lines_def clear_screen_def sgr_reset_def)


text \<open>
  C8. The terminal export of the 400-row framebuffer emits, after the cursor home and
  clear screen sequences, one line for every pair of rows \<open>2k\<close> and \<open>2k + 1\<close>: one cell per
  column, which selects the pixel of the upper row as foreground colour (38;2) and the
  pixel of the lower row as background colour (48;2) and prints the upper half block
  U+2580 (the bytes E2 96 80); every line ends with the reset of the styling
  \<^verbatim>\<open>ESC [ 0 m\<close> and a newline, and the output ends with one more reset. The output has
  exactly 200 lines. \<open>channels\<close> is a colour in decimal, as for gold. Both
  \<open>ansi_output_ws\<close> (weatherstar.c) and \<open>ansi_output\<close> (screenshot.h, where no line
  overflows its buffer) produce this text.
\<close>

theorem ansi_output_half_block_lines:
  "ansi_output_ws f =
     CHR 0x1B # ''[H'' @ CHR 0x1B # ''[2J''
     @ concat (map (\<lambda>k.
         concat (map (\<lambda>x.
             CHR 0x1B # ''[38;2;'' @ channels (f (2 * k) x) @ ''m''
             @ CHR 0x1B # ''[48;2;'' @ channels (f (2 * k + 1) x) @ ''m''
             @ [CHR 0xE2, CHR 0x96, CHR 0x80]) [0..639])
         @ CHR 0x1B # ''[0m'' @ [CHR 0x0A]) [0..199])
     @ CHR 0x1B # ''[0m'' \<and>
   ansi_output f = Some (ansi_output_ws f) \<and>
   count_lines (ansi_output_ws f) = 200 \<and>
   channels (rgb 255 200 50) = ''255;200;50'' \<and>
   channels (rgb 0 7 42) = ''0;7;42''"
proof -
  have "ansi_spec f =
     CHR 0x1B # ''[H'' @ CHR 0x1B # ''[2J''
     @ concat (map (\<lambda>k.
         concat (map (\<lambda>x.
             CHR 0x1B # ''[38;2;'' @ channels (f (2 * k) x) @ ''m''
             @ CHR 0x1B # ''[48;2;'' @ channels (f (2 * k + 1) x) @ ''m''
             @ [CHR 0xE2, CHR 0x96, CHR 0x80]) [0..639])
         @ CHR 0x1B # ''[0m'' @ [CHR 0x0A]) [0..199])
     @ CHR 0x1B # ''[0m''"
    by (simp add: ansi_spec_def ansi_line_spec_def [abs_def] half_block_cell_def)
  then have "ansi_output_ws f =
     CHR 0x1B # ''[H'' @ CHR 0x1B # ''[2J''
     @ concat (map (\<lambda>k.
         concat (map (\<lambda>x.
             CHR 0x1B # ''[38;2;'' @ channels (f (2 * k) x) @ ''m''
             @ CHR 0x1B # ''[48;2;'' @ channels (f (2 * k + 1) x) @ ''m''
             @ [CHR 0xE2, CHR 0x96, CHR 0x80]) [0..639])
         @ CHR 0x1B # ''[0m'' @ [CHR 0x0A]) [0..199])
     @ CHR 0x1B # ''[0m''"
    by (simp only: ansi_output_ws_spec)
  moreover have "ansi_output f = Some (ansi_output_ws f)"
    by (simp only: ansi_output_ws_spec ansi_output_spec)
  moreover have "count_lines (ansi_output_ws f) = 200"
    by (simp only: ansi_output_ws_spec count_lines_ansi_spec)
  moreover have "channels (rgb 0 7 42) = ''0;7;42''"
    by (simp add: channels_def channel_def digit_def rgb_def)
  ultimately show ?thesis
    using channels_gold by blast
qed

section \<open>The square root in single precision\<close>

lemma isqrt_bounds: "isqrt n * isqrt n \<le> n \<and> n < (isqrt n + 1) * (isqrt n + 1)"
proof (induction n rule: isqrt.induct)
  case (1 n)
  show ?case
  proof (cases "n < 2")
    case True
    then have i: "isqrt n = n" by (subst isqrt.simps) simp
    from True have "n = 0 \<or> n = 1" by auto
    then show ?thesis unfolding i by auto
  next
    case False
    define m where "m = isqrt (n div 4)"
    have IH: "m * m \<le> n div 4" "n div 4 < (m + 1) * (m + 1)"
      using 1[OF False] by (simp_all add: m_def)
    have lo: "(2 * m) * (2 * m) \<le> n"
    proof -
      have "(2 * m) * (2 * m) = 4 * (m * m)" by simp
      also have "\<dots> \<le> 4 * (n div 4)" using IH(1) by simp
      also have "\<dots> \<le> n" by simp
      finally show ?thesis .
    qed
    have hi: "n < (2 * m + 2) * (2 * m + 2)"
    proof -
      have "n div 4 + 1 \<le> (m + 1) * (m + 1)" using IH(2) by simp
      then have "4 * (n div 4) + 4 \<le> 4 * ((m + 1) * (m + 1))" by simp
      moreover have "n < 4 * (n div 4) + 4" by linarith
      moreover have "4 * ((m + 1) * (m + 1)) = (2 * m + 2) * (2 * m + 2)" by (simp add: algebra_simps)
      ultimately show ?thesis by simp
    qed
    have eq: "isqrt n = (if (2 * m + 1) * (2 * m + 1) \<le> n then 2 * m + 1 else 2 * m)"
      using False by (subst isqrt.simps) (simp add: m_def Let_def)
    show ?thesis
    proof (cases "(2 * m + 1) * (2 * m + 1) \<le> n")
      case True
      then show ?thesis using hi by (simp add: eq)
    next
      case False
      then show ?thesis using lo by (simp add: eq)
    qed
  qed
qed

lemma sqrtf_sig:
  "0 < x \<Longrightarrow> sqrtf x = of_int (sqrt_sig (x / (2 powi (ilog2 x div 2 - 23) * 2 powi (ilog2 x div 2 - 23))))
                          * 2 powi (ilog2 x div 2 - 23)"
  by (simp add: sqrtf_def sqrt_sig_def Let_def)

lemma isqrt_floor_bounds:
  fixes z :: rat
  assumes "0 \<le> z"
  shows "of_int (int (isqrt (nat \<lfloor>z\<rfloor>))) * of_int (int (isqrt (nat \<lfloor>z\<rfloor>))) \<le> z"
    and "z < (of_int (int (isqrt (nat \<lfloor>z\<rfloor>))) + 1) * (of_int (int (isqrt (nat \<lfloor>z\<rfloor>))) + 1)"
proof -
  define s where "s = isqrt (nat \<lfloor>z\<rfloor>)"
  have fz: "0 \<le> \<lfloor>z\<rfloor>" using assms by simp
  have B: "s * s \<le> nat \<lfloor>z\<rfloor>" "nat \<lfloor>z\<rfloor> < (s + 1) * (s + 1)"
    using isqrt_bounds[of "nat \<lfloor>z\<rfloor>"] by (simp_all add: s_def)
  have "int (s * s) \<le> \<lfloor>z\<rfloor>" using B(1) fz by linarith
  then have "(of_int (int (s * s)) :: rat) \<le> of_int \<lfloor>z\<rfloor>" by (simp only: of_int_le_iff)
  also have "\<dots> \<le> z" by simp
  finally show "of_int (int (isqrt (nat \<lfloor>z\<rfloor>))) * of_int (int (isqrt (nat \<lfloor>z\<rfloor>))) \<le> z"
    by (simp add: s_def)
  have "\<lfloor>z\<rfloor> < int ((s + 1) * (s + 1))" using B(2) fz by linarith
  then have "\<lfloor>z\<rfloor> + 1 \<le> int ((s + 1) * (s + 1))" by simp
  then have "(of_int (\<lfloor>z\<rfloor> + 1) :: rat) \<le> of_int (int ((s + 1) * (s + 1)))"
    by (simp only: of_int_le_iff)
  moreover have "z < of_int (\<lfloor>z\<rfloor> + 1)" by simp linarith
  ultimately have "z < of_int (int ((s + 1) * (s + 1)))" by simp
  also have "(of_int (int ((s + 1) * (s + 1))) :: rat) = (of_int (int s) + 1) * (of_int (int s) + 1)"
    by (simp add: algebra_simps)
  finally show "z < (of_int (int (isqrt (nat \<lfloor>z\<rfloor>))) + 1) * (of_int (int (isqrt (nat \<lfloor>z\<rfloor>))) + 1)"
    by (simp only: s_def)
qed

lemma sq_le_imp_le:
  fixes a b :: rat
  assumes "a * a \<le> b * b" "0 \<le> b"
  shows "a \<le> b"
proof (rule ccontr)
  assume "\<not> a \<le> b"
  then have "b < a" by simp
  then have "b * b < a * a" using assms(2) by (intro mult_strict_mono') simp_all
  with assms(1) show False by simp
qed

lemma half_square:
  fixes x :: rat
  shows "(x + 1/2) * (x + 1/2) = x * x + x + 1/4"
  by (simp add: field_simps)

lemma t2: "(of_int (int ((s + 1) * (s + 1))) :: rat) = (of_int (int s) + 1) * (of_int (int s) + 1)"
  by (simp add: algebra_simps)

lemma sqrt_sig_cases:
  fixes z :: rat
  defines "s \<equiv> int (isqrt (nat \<lfloor>z\<rfloor>))"
  shows "z < (of_int s + 1/2) * (of_int s + 1/2) \<Longrightarrow> sqrt_sig z = s"
    and "(of_int s + 1/2) * (of_int s + 1/2) < z \<Longrightarrow> sqrt_sig z = s + 1"
    and "s \<le> sqrt_sig z" and "sqrt_sig z \<le> s + 1"
proof -
  define h :: rat where "h = (of_int s + 1/2) * (of_int s + 1/2)"
  have eq: "sqrt_sig z = (if z < h then s else if h < z then s + 1 else if even s then s else s + 1)"
    unfolding sqrt_sig_def Let_def h_def s_def ..
  show "z < (of_int s + 1/2) * (of_int s + 1/2) \<Longrightarrow> sqrt_sig z = s"
    unfolding eq h_def [symmetric] by simp
  show "(of_int s + 1/2) * (of_int s + 1/2) < z \<Longrightarrow> sqrt_sig z = s + 1"
    unfolding eq h_def [symmetric] by simp
  show "s \<le> sqrt_sig z" unfolding eq by simp
  show "sqrt_sig z \<le> s + 1" unfolding eq by simp
qed

lemma sqrt_sig_le:
  assumes "0 \<le> z" "0 \<le> K" "z \<le> of_int K * of_int K"
  shows "sqrt_sig z \<le> K"
proof -
  define s where "s = int (isqrt (nat \<lfloor>z\<rfloor>))"
  have s0: "0 \<le> s" by (simp add: s_def)
  have B: "of_int s * of_int s \<le> z" using isqrt_floor_bounds(1)[OF assms(1)] by (simp only: s_def)
  have "(of_int s :: rat) * of_int s \<le> of_int K * of_int K" using B assms(3) by (rule order_trans)
  moreover have "(0::rat) \<le> of_int K" using assms(2) by simp
  ultimately have "(of_int s :: rat) \<le> of_int K" by (rule sq_le_imp_le)
  then have sK: "s \<le> K" by (simp only: of_int_le_iff)
  show ?thesis
  proof (cases "s = K")
    case True
    have "z < (of_int s + 1/2) * (of_int s + 1/2)"
    proof -
      have "z \<le> of_int s * of_int s" using assms(3) True by simp
      moreover have "(0::rat) \<le> of_int s" using s0 by simp
      ultimately show ?thesis unfolding half_square by linarith
    qed
    then have "sqrt_sig z = s" unfolding s_def by (rule sqrt_sig_cases)
    then show ?thesis using True by simp
  next
    case False
    with sK have "s + 1 \<le> K" by simp
    moreover have "sqrt_sig z \<le> s + 1" unfolding s_def by (rule sqrt_sig_cases)
    ultimately show ?thesis by simp
  qed
qed

lemma sqrt_sig_ge:
  assumes "0 \<le> K" "(of_int K + 1/2) * (of_int K + 1/2) < z"
  shows "K + 1 \<le> sqrt_sig z"
proof -
  define s where "s = int (isqrt (nat \<lfloor>z\<rfloor>))"
  have s0: "0 \<le> s" by (simp add: s_def)
  have K0: "(0::rat) \<le> of_int K" using assms(1) by simp
  have z0: "0 \<le> z"
  proof -
    have "(0::rat) \<le> (of_int K + 1/2) * (of_int K + 1/2)" by simp
    then show ?thesis using assms(2) by linarith
  qed
  have B: "z < (of_int s + 1) * (of_int s + 1)" using isqrt_floor_bounds(2)[OF z0] by (simp only: s_def)
  have "(of_int K + 1/2 :: rat) * (of_int K + 1/2) \<le> (of_int s + 1) * (of_int s + 1)"
    using assms(2) B by linarith
  moreover have "(0::rat) \<le> of_int s + 1" using s0 by simp
  ultimately have "(of_int K + 1/2 :: rat) \<le> of_int s + 1" by (rule sq_le_imp_le)
  then have "(of_int K :: rat) < of_int (s + 1)" by simp
  then have "K < s + 1" by (simp only: of_int_less_iff)
  then have Ks: "K \<le> s" by simp
  show ?thesis
  proof (cases "s = K")
    case True
    then have "(of_int s + 1/2) * (of_int s + 1/2) < z" using assms(2) by simp
    then have "sqrt_sig z = s + 1" unfolding s_def by (rule sqrt_sig_cases)
    then show ?thesis using True by simp
  next
    case False
    with Ks have "K + 1 \<le> s" by simp
    moreover have "s \<le> sqrt_sig z" unfolding s_def by (rule sqrt_sig_cases)
    ultimately show ?thesis by simp
  qed
qed


lemma powi2_neg_nat: "n \<le> 23 \<Longrightarrow> (2::rat) powi (n - 23) = 1 / 2 ^ nat (23 - n)"
proof -
  assume "n \<le> 23"
  then have "n - 23 = - int (nat (23 - n))" by simp
  then have "(2::rat) powi (n - 23) = 2 powi (- int (nat (23 - n)))" by (rule arg_cong)
  also have "\<dots> = 1 / 2 ^ nat (23 - n)" by (simp only: power_int_minus_divide power_int_of_nat)
  finally show ?thesis .
qed

lemma ilog2_nonneg: "1 \<le> x \<Longrightarrow> 0 \<le> ilog2 x"
proof -
  assume x: "1 \<le> x"
  then have pos: "0 < x" by simp
  have "(2::rat) powi 0 \<le> x" using x by simp
  also have "x < 2 powi (ilog2 x + 1)" using pos by (rule ilog2_bounds)
  finally show ?thesis by (simp only: powi2_less_iff)
qed

lemma ilog2_less: "0 < x \<Longrightarrow> x < 2 powi n \<Longrightarrow> ilog2 x < n"
proof -
  assume pos: "0 < x" and "x < 2 powi n"
  have "(2::rat) powi (ilog2 x) \<le> x" using pos by (rule ilog2_bounds)
  also have "x < 2 powi n" by fact
  finally show ?thesis by (simp only: powi2_less_iff)
qed

text \<open>The value of \<open>sqrtf\<close> against an integer \<open>r\<close> that is a multiple of the unit \<open>q\<close>
  of the result.\<close>

lemma sqrtf_frame:
  assumes x: "0 < x" and e: "ilog2 x div 2 \<le> 23" and r: "0 \<le> r"
  defines "q \<equiv> 1 / 2 ^ nat (23 - ilog2 x div 2)"
  shows "x \<le> of_int r * of_int r \<Longrightarrow> sqrtf x \<le> of_int r"
    and "(of_int r + q / 2) * (of_int r + q / 2) < x \<Longrightarrow> of_int r < sqrtf x"
proof -
  define n where "n = nat (23 - ilog2 x div 2)"
  have q: "q = 1 / 2 ^ n" by (simp add: q_def n_def)
  have qpos: "0 < q" by (simp add: q)
  have qq: "(2::rat) powi (ilog2 x div 2 - 23) = q"
    using e by (simp only: powi2_neg_nat q n_def)
  define K where "K = r * 2 ^ n"
  have K0: "0 \<le> K" using r by (simp add: K_def)
  have Kq: "of_int K * q = of_int r" by (simp add: K_def q)
  define z where "z = x / (q * q)"
  have z0: "0 \<le> z" using x qpos by (simp add: z_def)
  have sf: "sqrtf x = of_int (sqrt_sig z) * q"
    using x by (simp only: sqrtf_sig qq z_def)
  show "sqrtf x \<le> of_int r" if "x \<le> of_int r * of_int r"
  proof -
    have "z \<le> of_int K * of_int K"
    proof -
      have "x \<le> (of_int K * q) * (of_int K * q)" using that by (simp only: Kq)
      then have "x \<le> (of_int K * of_int K) * (q * q)" by (simp only: ac_simps)
      then show ?thesis using qpos by (simp add: z_def pos_divide_le_eq)
    qed
    then have "sqrt_sig z \<le> K" using z0 K0 by (intro sqrt_sig_le)
    then have "(of_int (sqrt_sig z) :: rat) \<le> of_int K" by (simp only: of_int_le_iff)
    then have "of_int (sqrt_sig z) * q \<le> of_int K * q" using qpos by simp
    then show ?thesis by (simp only: sf Kq)
  qed
  show "of_int r < sqrtf x" if "(of_int r + q / 2) * (of_int r + q / 2) < x"
  proof -
    have "(of_int K + 1/2) * q = of_int r + q / 2"
      by (simp add: distrib_right Kq)
    then have "((of_int K + 1/2) * q) * ((of_int K + 1/2) * q) < x" using that by simp
    then have "((of_int K + 1/2) * (of_int K + 1/2)) * (q * q) < x" by (simp only: ac_simps)
    then have "(of_int K + 1/2) * (of_int K + 1/2) < z"
      using qpos by (simp add: z_def pos_less_divide_eq)
    then have "K + 1 \<le> sqrt_sig z" using K0 by (intro sqrt_sig_ge)
    then have "(of_int (K + 1) :: rat) \<le> of_int (sqrt_sig z)" by (simp only: of_int_le_iff)
    then have "of_int (K + 1) * q \<le> of_int (sqrt_sig z) * q" using qpos by simp
    moreover have "of_int (K + 1) * q = of_int r + q" by (simp add: distrib_right Kq)
    ultimately have "of_int r + q \<le> sqrtf x" by (simp only: sf)
    then show ?thesis using qpos by linarith
  qed
qed

lemma sqrtf_le_int:
  assumes "1 \<le> r" "r \<le> 4095" "1 \<le> N" "N \<le> r * r"
  shows "sqrtf (of_int N) \<le> of_int r"
proof -
  define x :: rat where "x = of_int N"
  have x1: "1 \<le> x" using assms(3) by (simp add: x_def)
  then have pos: "0 < x" by simp
  have "r * r \<le> 4095 * 4095" using assms(1,2) by (intro mult_mono) simp_all
  then have "N < 2 ^ 24" using assms(4) by simp
  then have "x < 2 ^ 24" unfolding x_def
    by (metis of_int_less_iff of_int_numeral of_int_power)
  then have "x < 2 powi 24" by simp
  then have "ilog2 x < 24" using pos by (intro ilog2_less)
  then have e: "ilog2 x div 2 \<le> 23" by simp
  have "x \<le> of_int r * of_int r"
    unfolding x_def using assms(4) by (metis of_int_le_iff of_int_mult)
  then show ?thesis
    using sqrtf_frame(1)[OF pos e, of r] assms(1) by (simp add: x_def)
qed

lemma sqrtf_gt_int:
  assumes "1 \<le> r" "r \<le> 4095" "of_int (r * r + 1) \<le> x" "x \<le> 2 ^ 25"
  shows "of_int r < sqrtf x"
proof -
  have r1: "(1::rat) \<le> of_int r" "(of_int r :: rat) \<le> 4095" using assms(1,2) by simp_all
  have xr: "of_int r * of_int r + 1 \<le> x" using assms(3) by simp
  have "(1::rat) * 1 \<le> of_int r * of_int r" using r1(1) by (intro mult_mono) simp_all
  then have x1: "1 \<le> x" using xr by linarith
  then have pos: "0 < x" by simp
  have L0: "0 \<le> ilog2 x" using x1 by (rule ilog2_nonneg)
  have "x < 2 powi 26" using assms(4) by simp
  then have L25: "ilog2 x < 26" using pos by (intro ilog2_less)
  define e where "e = ilog2 x div 2"
  have e12: "e \<le> 12" "0 \<le> e" using L25 L0 by (simp_all add: e_def)
  have e23: "ilog2 x div 2 \<le> 23" using e12 by (simp add: e_def)
  define q :: rat where "q = 1 / 2 ^ nat (23 - ilog2 x div 2)"
  have qpos: "0 < q" by (simp add: q_def)
  have key: "(of_int r + q / 2) * (of_int r + q / 2) < x"
  proof (cases "e \<le> 11")
    case True
    then have "12 \<le> nat (23 - ilog2 x div 2)" by (simp add: e_def)
    then have "(2::rat) ^ 12 \<le> 2 ^ nat (23 - ilog2 x div 2)" by (intro power_increasing) simp_all
    then have q12: "q \<le> 1 / 4096" unfolding q_def by (simp add: field_simps)
    have a: "of_int r * q \<le> 4095 * (1 / 4096)"
      using r1 q12 qpos by (intro mult_mono) simp_all
    have b: "q * q \<le> (1 / 4096) * (1 / 4096)"
      using q12 qpos by (intro mult_mono) simp_all
    have "(of_int r + q / 2) * (of_int r + q / 2) = of_int r * of_int r + of_int r * q + q * q / 4"
      by (simp add: field_simps)
    also have "\<dots> < of_int r * of_int r + 1" using a b by simp
    finally show ?thesis using xr by linarith
  next
    case False
    with e12 have e: "e = 12" by simp
    then have q11: "q = 1 / 2048" by (simp add: q_def e_def)
    have "2 * e \<le> ilog2 x" unfolding e_def by simp
    then have "(2::rat) powi (2 * e) \<le> 2 powi (ilog2 x)" by (simp only: powi2_le_iff)
    also have "\<dots> \<le> x" using pos by (rule ilog2_bounds)
    finally have x24: "2 ^ 24 \<le> x" by (simp add: e)
    have "of_int r + q / 2 < (4096::rat)" using r1 by (simp add: q11)
    moreover have "(0::rat) \<le> of_int r + q / 2" using r1 qpos by simp
    ultimately have "(of_int r + q / 2) * (of_int r + q / 2) < 4096 * 4096"
      by (intro mult_strict_mono') simp_all
    then show ?thesis using x24 by simp
  qed
  show ?thesis
    using sqrtf_frame(2)[OF pos e23, of r] key assms(1) by (simp add: q_def)
qed

section \<open>Rounded rectangles: the corner pixels\<close>

lemma corner_cut_iff:
  "corner_cut x0 y0 w h r y x \<longleftrightarrow>
     (\<exists>dy dx. 0 \<le> dy \<and> dy < r \<and> 0 \<le> dx \<and> dx < r \<and>
        r * r < (r - dx) * (r - dx) + (r - dy) * (r - dy) \<and>
        (x, y) \<in> set (corners x0 y0 w h dx dy))"
proof -
  have "corner_cut x0 y0 w h r y x \<longleftrightarrow>
        (\<exists>dx. (dx = x - x0 \<or> dx = x0 + w - 1 - x) \<and>
           (\<exists>dy. (dy = y - y0 \<or> dy = y0 + h - 1 - y) \<and>
              0 \<le> dx \<and> dx < r \<and> 0 \<le> dy \<and> dy < r \<and>
              r * r < (r - dx) * (r - dx) + (r - dy) * (r - dy)))"
    unfolding corner_cut_def list_ex_iff
    by (simp only: list.set Bex_def insert_iff empty_iff simp_thms)
  moreover have "(x, y) \<in> set (corners x0 y0 w h dx dy) \<longleftrightarrow>
        (dx = x - x0 \<or> dx = x0 + w - 1 - x) \<and> (dy = y - y0 \<or> dy = y0 + h - 1 - y)" for dx dy
    by (auto simp add: corners_def)
  ultimately show ?thesis by (simp only:) blast
qed

lemma knock_out_paint:
  "knock_out bg (cx, cy) (Fb f) =
   Fb (paint (\<lambda>y x. in_grid y x \<and> y = cy \<and> x = cx) (\<lambda>y x. bg y) f)"
proof -
  have "knock_out bg (cx, cy) (Fb f) =
        Fb (paint (\<lambda>y x. in_grid cy cx \<and> y = cy \<and> x = cx) (\<lambda>_ _. bg cy) f)"
    unfolding knock_out_def prod.case
    using guarded_store_paint[of "in_grid cy cx" cy cx "bg cy" f]
    by (simp add: in_grid_def conj_ac)
  also have "paint (\<lambda>y x. in_grid cy cx \<and> y = cy \<and> x = cx) (\<lambda>_ _. bg cy) f =
             paint (\<lambda>y x. in_grid cy cx \<and> y = cy \<and> x = cx) (\<lambda>y x. bg y) f"
    by (rule paint_cong_col) simp
  also have "\<dots> = paint (\<lambda>y x. in_grid y x \<and> y = cy \<and> x = cx) (\<lambda>y x. bg y) f"
    by (rule paint_cong_region) auto
  finally show ?thesis .
qed

lemma fold_knock_out_paint:
  "fold (knock_out bg) ps (Fb f) =
   Fb (paint (\<lambda>y x. in_grid y x \<and> (x, y) \<in> set ps) (\<lambda>y x. bg y) f)"
proof (induction ps arbitrary: f)
  case Nil
  then show ?case by (simp add: paint_none)
next
  case (Cons p ps)
  obtain cx cy where p: "p = (cx, cy)" by (cases p)
  have "fold (knock_out bg) (p # ps) (Fb f) =
        Fb (paint (\<lambda>y x. in_grid y x \<and> (x, y) \<in> set ps) (\<lambda>y x. bg y)
              (paint (\<lambda>y x. in_grid y x \<and> y = cy \<and> x = cx) (\<lambda>y x. bg y) f))"
    by (simp add: p knock_out_paint Cons)
  also have "paint (\<lambda>y x. in_grid y x \<and> (x, y) \<in> set ps) (\<lambda>y x. bg y)
              (paint (\<lambda>y x. in_grid y x \<and> y = cy \<and> x = cx) (\<lambda>y x. bg y) f) =
             paint (\<lambda>y x. in_grid y x \<and> (x, y) \<in> set (p # ps)) (\<lambda>y x. bg y) f"
    unfolding paint_paint by (rule paint_cong_region) (auto simp add: p)
  finally show ?case .
qed

text \<open>The two corner loops, for a test \<open>knocked dx dy\<close> of the offsets.\<close>

lemma corner_loops_paint:
  "for_loop 0 r (\<lambda>dy. for_loop 0 r (\<lambda>dx s.
       if knocked dx dy then fold (knock_out bg) (corners x0 y0 w h dx dy) s else s)) (Fb f) =
   Fb (paint (\<lambda>y x. in_grid y x \<and>
                (\<exists>dy dx. 0 \<le> dy \<and> dy < r \<and> 0 \<le> dx \<and> dx < r \<and> knocked dx dy \<and>
                   (x, y) \<in> set (corners x0 y0 w h dx dy)))
         (\<lambda>y x. bg y) f)"
proof -
  have one: "(if knocked dx dy then fold (knock_out bg) (corners x0 y0 w h dx dy) (Fb f) else Fb f) =
             Fb (paint (\<lambda>y x. knocked dx dy \<and> in_grid y x \<and> (x, y) \<in> set (corners x0 y0 w h dx dy))
                   (\<lambda>y x. bg y) f)" for dx dy f
    by (cases "knocked dx dy") (simp_all add: fold_knock_out_paint paint_none)
  have inner: "for_loop 0 r (\<lambda>dx s.
                 if knocked dx dy then fold (knock_out bg) (corners x0 y0 w h dx dy) s else s) (Fb f) =
               Fb (paint (\<lambda>y x. \<exists>dx. 0 \<le> dx \<and> dx < r \<and>
                            (knocked dx dy \<and> in_grid y x \<and> (x, y) \<in> set (corners x0 y0 w h dx dy)))
                     (\<lambda>y x. bg y) f)" for dy f
    by (rule for_loop_paint) (rule one)
  have "for_loop 0 r (\<lambda>dy. for_loop 0 r (\<lambda>dx s.
          if knocked dx dy then fold (knock_out bg) (corners x0 y0 w h dx dy) s else s)) (Fb f) =
        Fb (paint (\<lambda>y x. \<exists>dy. 0 \<le> dy \<and> dy < r \<and> (\<exists>dx. 0 \<le> dx \<and> dx < r \<and>
                     (knocked dx dy \<and> in_grid y x \<and> (x, y) \<in> set (corners x0 y0 w h dx dy))))
              (\<lambda>y x. bg y) f)"
    by (rule for_loop_paint) (rule inner)
  also have "paint (\<lambda>y x. \<exists>dy. 0 \<le> dy \<and> dy < r \<and> (\<exists>dx. 0 \<le> dx \<and> dx < r \<and>
                     (knocked dx dy \<and> in_grid y x \<and> (x, y) \<in> set (corners x0 y0 w h dx dy))))
              (\<lambda>y x. bg y) f =
             paint (\<lambda>y x. in_grid y x \<and>
                (\<exists>dy dx. 0 \<le> dy \<and> dy < r \<and> 0 \<le> dx \<and> dx < r \<and> knocked dx dy \<and>
                   (x, y) \<in> set (corners x0 y0 w h dx dy)))
             (\<lambda>y x. bg y) f"
    by (rule paint_cong_region) blast
  finally show ?thesis .
qed

text \<open>Up to the radius 32767 the squares and their sum fit an \<^verbatim>\<open>int\<close>.\<close>

lemma corner_sq_int32:
  assumes "0 \<le> dx" "dx < r" "0 \<le> dy" "dy < r" "r \<le> 32767"
  shows "int32 (r * r) = r * r"
    and "int32 (int32 ((r - dx) * (r - dx)) + int32 ((r - dy) * (r - dy))) =
         (r - dx) * (r - dx) + (r - dy) * (r - dy)"
proof -
  define a where "a = r - dx"
  define b where "b = r - dy"
  have r: "0 \<le> r" using assms by simp
  have a: "0 \<le> a" "a \<le> r" and b: "0 \<le> b" "b \<le> r" using assms by (simp_all add: a_def b_def)
  have rr: "0 \<le> r * r" "r * r \<le> 32767 * 32767" using r assms(5) by (simp, intro mult_mono) simp_all
  have aa: "0 \<le> a * a" "a * a \<le> r * r" using a r by (simp, intro mult_mono) simp_all
  have bb: "0 \<le> b * b" "b * b \<le> r * r" using b r by (simp, intro mult_mono) simp_all
  show "int32 (r * r) = r * r" using rr by (intro int32_id; linarith)
  have 1: "int32 (a * a) = a * a" using aa rr by (intro int32_id; linarith)
  have 2: "int32 (b * b) = b * b" using bb rr by (intro int32_id; linarith)
  have 3: "int32 (a * a + b * b) = a * a + b * b" using aa bb rr by (intro int32_id; linarith)
  show "int32 (int32 ((r - dx) * (r - dx)) + int32 ((r - dy) * (r - dy))) =
        (r - dx) * (r - dx) + (r - dy) * (r - dy)"
    using 1 2 3 by (simp only: a_def b_def)
qed

text \<open>
  The corner loops of fb.h and of weatherstar.c, for every radius: the pixels that they
  knock out, by their own tests.
\<close>

lemma draw_rounded_rect_paint_int:
  "draw_rounded_rect x0 y0 w h r fill (Fb f) =
   Fb (paint (\<lambda>y x. in_grid y x \<and>
                (\<exists>dy dx. 0 \<le> dy \<and> dy < r \<and> 0 \<le> dx \<and> dx < r \<and>
                   int32 (r * r) < int32 (int32 ((r - dx) * (r - dx)) + int32 ((r - dy) * (r - dy))) \<and>
                   (x, y) \<in> set (corners x0 y0 w h dx dy)))
         (\<lambda>y x. fb_bg_at y) (paint (in_rect x0 y0 w h) (\<lambda>_ _. fill) f))"
proof -
  have "draw_rounded_rect x0 y0 w h r fill (Fb f) =
        for_loop 0 r (\<lambda>dy. for_loop 0 r (\<lambda>dx s.
          if int32 (r * r) < int32 (int32 ((r - dx) * (r - dx)) + int32 ((r - dy) * (r - dy)))
          then fold (knock_out fb_bg_at) (corners x0 y0 w h dx dy) s else s))
          (Fb (paint (in_rect x0 y0 w h) (\<lambda>_ _. fill) f))"
    unfolding draw_rounded_rect_def Let_def fb_rect_paint
    by (intro for_loop_cong_range) (simp add: not_le)
  then show ?thesis
    by (simp only: corner_loops_paint)
qed

lemma draw_rounded_rect_ws_paint_int:
  "draw_rounded_rect_ws x0 y0 w h r fill (Fb f) =
   Fb (paint (\<lambda>y x. in_grid y x \<and>
                (\<exists>dy dx. 0 \<le> dy \<and> dy < r \<and> 0 \<le> dx \<and> dx < r \<and>
                   float_of_int r < sqrtf (float_of_int
                     (int32 (int32 ((r - dx) * (r - dx)) + int32 ((r - dy) * (r - dy))))) \<and>
                   (x, y) \<in> set (corners x0 y0 w h dx dy)))
         (\<lambda>y x. bg_ws y) (paint (in_rect x0 y0 w h) (\<lambda>_ _. fill) f))"
proof -
  have "draw_rounded_rect_ws x0 y0 w h r fill (Fb f) =
        for_loop 0 r (\<lambda>dy. for_loop 0 r (\<lambda>dx s.
          if float_of_int r < sqrtf (float_of_int
               (int32 (int32 ((r - dx) * (r - dx)) + int32 ((r - dy) * (r - dy)))))
          then fold (knock_out bg_ws) (corners x0 y0 w h dx dy) s else s))
          (Fb (paint (in_rect x0 y0 w h) (\<lambda>_ _. fill) f))"
    by (simp only: draw_rounded_rect_ws_def fb_rect_paint Let_def)
  then show ?thesis
    by (simp only: corner_loops_paint)
qed

lemma draw_rounded_rect_paint:
  assumes "r \<le> 32767"
  shows "draw_rounded_rect x0 y0 w h r fill (Fb f) =
   Fb (paint (\<lambda>y x. in_grid y x \<and> corner_cut x0 y0 w h r y x) (\<lambda>y x. fb_bg_at y)
         (paint (in_rect x0 y0 w h) (\<lambda>_ _. fill) f))"
  unfolding draw_rounded_rect_paint_int
proof (rule arg_cong [where f = Fb], rule paint_cong_region)
  fix y x
  have "(0 \<le> dy \<and> dy < r \<and> 0 \<le> dx \<and> dx < r \<and>
          int32 (r * r) < int32 (int32 ((r - dx) * (r - dx)) + int32 ((r - dy) * (r - dy))) \<and>
          (x, y) \<in> set (corners x0 y0 w h dx dy)) =
        (0 \<le> dy \<and> dy < r \<and> 0 \<le> dx \<and> dx < r \<and>
          r * r < (r - dx) * (r - dx) + (r - dy) * (r - dy) \<and>
          (x, y) \<in> set (corners x0 y0 w h dx dy))" for dy dx
    using corner_sq_int32 [of dx r dy] assms by auto
  then show "(in_grid y x \<and>
           (\<exists>dy dx. 0 \<le> dy \<and> dy < r \<and> 0 \<le> dx \<and> dx < r \<and>
              int32 (r * r) < int32 (int32 ((r - dx) * (r - dx)) + int32 ((r - dy) * (r - dy))) \<and>
              (x, y) \<in> set (corners x0 y0 w h dx dy))) =
        (in_grid y x \<and> corner_cut x0 y0 w h r y x)"
    by (simp only: corner_cut_iff)
qed

lemma corner_test_equiv:
  assumes "0 \<le> dx" "dx < r" "0 \<le> dy" "dy < r" "r \<le> 4095"
  shows "(float_of_int r < sqrtf (float_of_int ((r - dx) * (r - dx) + (r - dy) * (r - dy)))) =
         (r * r < (r - dx) * (r - dx) + (r - dy) * (r - dy))"
proof -
  define a where "a = r - dx"
  define b where "b = r - dy"
  define N where "N = a * a + b * b"
  have r1: "1 \<le> r" using assms by simp
  have a: "1 \<le> a" "a \<le> r" using assms by (simp_all add: a_def)
  have b: "1 \<le> b" "b \<le> r" using assms by (simp_all add: b_def)
  have rr: "r * r \<le> 4095 * 4095" using r1 assms(5) by (intro mult_mono) simp_all
  have aa: "1 * 1 \<le> a * a" "a * a \<le> r * r" using a r1 by (intro mult_mono; simp)+
  have bb: "1 * 1 \<le> b * b" "b * b \<le> r * r" using b r1 by (intro mult_mono; simp)+
  have N1: "1 \<le> N" "N \<le> 2 * (r * r)" using aa bb by (simp_all add: N_def)
  have fr: "float_of_int r = of_int r" using r1 assms(5) by (intro float_of_int_exact) simp
  have "(of_int r < sqrtf (float_of_int N)) = (r * r < N)"
  proof (cases "N \<le> r * r")
    case True
    have "float_of_int N = of_int N" using True N1 rr by (intro float_of_int_exact) simp
    moreover have "sqrtf (of_int N) \<le> of_int r" using r1 assms(5) N1(1) True by (rule sqrtf_le_int)
    ultimately show ?thesis using True by simp
  next
    case False
    then have lt: "r * r + 1 \<le> N" by simp
    have "f32 (of_int (r * r + 1)) \<le> f32 (of_int N)"
      using lt by (intro f32_mono) (simp only: of_int_le_iff)
    moreover have "f32 (of_int (r * r + 1)) = of_int (r * r + 1)"
      using rr r1 by (intro f32_of_int) simp
    ultimately have lo: "of_int (r * r + 1) \<le> float_of_int N" by (simp add: float_of_int_def)
    have Npos: "(0::rat) < of_int N" using N1(1) by simp
    have "N < 2 ^ 25" using N1(2) rr by simp
    then have "(of_int N :: rat) < 2 ^ 25"
      by (metis of_int_less_iff of_int_numeral of_int_power)
    then have "(of_int N :: rat) < 2 powi 25" by simp
    then have "ilog2 (of_int N) < 25" using Npos by (intro ilog2_less)
    then have "ilog2 (of_int N) + 1 \<le> 25" by simp
    then have "(2::rat) powi (ilog2 (of_int N) + 1) \<le> 2 powi 25" by (simp only: powi2_le_iff)
    moreover have "f32 (of_int N) \<le> 2 powi (ilog2 (of_int N) + 1)" using Npos by (rule f32_pos_bounds)
    ultimately have hi: "float_of_int N \<le> 2 ^ 25" by (simp add: float_of_int_def)
    have "of_int r < sqrtf (float_of_int N)" using r1 assms(5) lo hi by (rule sqrtf_gt_int)
    then show ?thesis using False by simp
  qed
  then show ?thesis by (simp only: fr N_def a_def b_def)
qed

lemma draw_rounded_rect_ws_paint:
  assumes "r \<le> 4095"
  shows "draw_rounded_rect_ws x0 y0 w h r fill (Fb f) =
         Fb (paint (\<lambda>y x. in_grid y x \<and> corner_cut x0 y0 w h r y x) (\<lambda>y x. bg_ws y)
               (paint (in_rect x0 y0 w h) (\<lambda>_ _. fill) f))"
  unfolding draw_rounded_rect_ws_paint_int
proof (rule arg_cong [where f = Fb], rule paint_cong_region)
  fix y x
  have r: "r \<le> 32767" using assms by simp
  have "(0 \<le> dy \<and> dy < r \<and> 0 \<le> dx \<and> dx < r \<and>
          float_of_int r < sqrtf (float_of_int
             (int32 (int32 ((r - dx) * (r - dx)) + int32 ((r - dy) * (r - dy))))) \<and>
          (x, y) \<in> set (corners x0 y0 w h dx dy)) =
        (0 \<le> dy \<and> dy < r \<and> 0 \<le> dx \<and> dx < r \<and>
          r * r < (r - dx) * (r - dx) + (r - dy) * (r - dy) \<and>
          (x, y) \<in> set (corners x0 y0 w h dx dy))" for dy dx
    using corner_sq_int32(2) [of dx r dy] corner_test_equiv [of dx r dy] assms r by auto
  then show "(in_grid y x \<and>
           (\<exists>dy dx. 0 \<le> dy \<and> dy < r \<and> 0 \<le> dx \<and> dx < r \<and>
              float_of_int r < sqrtf (float_of_int
                 (int32 (int32 ((r - dx) * (r - dx)) + int32 ((r - dy) * (r - dy))))) \<and>
              (x, y) \<in> set (corners x0 y0 w h dx dy))) =
        (in_grid y x \<and> corner_cut x0 y0 w h r y x)"
    by (simp only: corner_cut_iff)
qed

text \<open>The relative error of a rounding to single precision is at most \<open>2\<^sup>-\<^sup>2\<^sup>4\<close>.\<close>

lemma f32_rel:
  assumes "0 < x"
  shows "x * (1 - 1 / 2 ^ 24) \<le> f32 x" and "f32 x \<le> x * (1 + 1 / 2 ^ 24)"
proof -
  define e where "e = ilog2 x"
  define q :: rat where "q = 2 powi (e - 23)"
  have q: "0 < q" by (simp add: q_def)
  have B: "2 powi e \<le> x" using ilog2_bounds[OF assms] by (simp add: e_def)
  have f: "f32 x = of_int (round_even (x / q)) * q"
    using assms by (simp add: f32_def Let_def e_def q_def)
  have e1: "(2::rat) powi e = 2 ^ 23 * q"
  proof -
    have "(2::rat) powi e = 2 powi (23 + (e - 23))" by simp
    also have "\<dots> = 2 powi 23 * 2 powi (e - 23)" by (rule power_int_add) simp
    finally show ?thesis by (simp add: q_def)
  qed
  have qx: "q / 2 \<le> x / 2 ^ 24" using B by (simp add: e1)
  have m: "(x / q - 1 / 2) * q = x - q / 2" "(x / q + 1 / 2) * q = x + q / 2"
    using q by (simp_all add: field_simps)
  have "(x / q - 1 / 2) * q \<le> of_int (round_even (x / q)) * q"
    using round_even_bounds(1)[of "x / q"] q by (intro mult_right_mono) simp_all
  then have lo: "x - q / 2 \<le> f32 x" unfolding f m .
  have "of_int (round_even (x / q)) * q \<le> (x / q + 1 / 2) * q"
    using round_even_bounds(2)[of "x / q"] q by (intro mult_right_mono) simp_all
  then have hi: "f32 x \<le> x + q / 2" unfolding f m .
  show "x * (1 - 1 / 2 ^ 24) \<le> f32 x" using lo qx by (simp add: algebra_simps)
  show "f32 x \<le> x * (1 + 1 / 2 ^ 24)" using hi qx by (simp add: algebra_simps)
qed


text \<open>The square root in single precision is at most \<open>2\<^sup>-\<^sup>2\<^sup>4\<close> below the square root.\<close>

lemma sqrtf_lower:
  assumes "0 < x"
  shows "0 \<le> sqrtf x"
    and "x \<le> (sqrtf x * (1 + 1 / 2 ^ 24)) * (sqrtf x * (1 + 1 / 2 ^ 24))"
proof -
  define e where "e = ilog2 x div 2"
  define q :: rat where "q = 2 powi (e - 23)"
  define z where "z = x / (q * q)"
  define S where "S = sqrt_sig z"
  have q: "0 < q" by (simp add: q_def)
  have sq: "sqrtf x = of_int S * q"
    using sqrtf_sig [OF assms] by (simp only: S_def z_def q_def e_def)
  have "2 * e \<le> ilog2 x" by (simp add: e_def)
  then have "(2::rat) powi (2 * e) \<le> 2 powi (ilog2 x)" by (simp only: powi2_le_iff)
  also have "\<dots> \<le> x" using assms by (rule ilog2_bounds)
  finally have x2e: "2 powi (2 * e) \<le> x" .
  have "(2::rat) powi (2 * e) = 2 powi (46 + ((e - 23) + (e - 23)))" by (simp add: algebra_simps)
  also have "\<dots> = 2 powi 46 * 2 powi ((e - 23) + (e - 23))" by (rule power_int_add) simp
  also have "(2::rat) powi ((e - 23) + (e - 23)) = q * q" unfolding q_def by (rule power_int_add) simp
  finally have "2 ^ 46 * (q * q) \<le> x" using x2e by simp
  then have z46: "2 ^ 46 \<le> z" using q by (simp add: z_def pos_le_divide_eq)
  have "(of_int (2 ^ 23 - 1) + 1 / 2) * (of_int (2 ^ 23 - 1) + 1 / 2) < (2 ^ 46 :: rat)" by simp
  then have "(of_int (2 ^ 23 - 1) + 1 / 2) * (of_int (2 ^ 23 - 1) + 1 / 2) < z"
    using z46 by (rule less_le_trans)
  then have "(2 ^ 23 - 1) + 1 \<le> sqrt_sig z" by (intro sqrt_sig_ge) simp
  then have S23: "2 ^ 23 \<le> S" by (simp add: S_def)
  then have S23r: "(2 ^ 23 :: rat) \<le> of_int S"
    by (metis of_int_le_iff of_int_numeral of_int_power)
  then have S0: "(0::rat) \<le> of_int S" by simp
  show "0 \<le> sqrtf x" using S0 q by (simp add: sq)
  have zS: "z \<le> (of_int S + 1 / 2) * (of_int S + 1 / 2)"
  proof (rule ccontr)
    assume "\<not> z \<le> (of_int S + 1 / 2) * (of_int S + 1 / 2)"
    then have "(of_int S + 1 / 2) * (of_int S + 1 / 2) < z" by simp
    moreover have "0 \<le> S" using S23 by simp
    ultimately have "S + 1 \<le> sqrt_sig z" by (intro sqrt_sig_ge)
    then show False by (simp add: S_def)
  qed
  have h: "of_int S + 1 / 2 \<le> of_int S * (1 + 1 / 2 ^ 24 :: rat)"
    using S23r by (simp add: algebra_simps)
  have h0: "(0::rat) \<le> of_int S + 1 / 2" using S0 by simp
  have "(of_int S + 1 / 2) * (of_int S + 1 / 2) \<le>
        (of_int S * (1 + 1 / 2 ^ 24 :: rat)) * (of_int S * (1 + 1 / 2 ^ 24))"
    using h h0 by (intro mult_mono) simp_all
  then have "z \<le> (of_int S * (1 + 1 / 2 ^ 24 :: rat)) * (of_int S * (1 + 1 / 2 ^ 24))"
    using zS by (rule order_trans [rotated])
  then have "z * (q * q) \<le> (of_int S * (1 + 1 / 2 ^ 24 :: rat)) * (of_int S * (1 + 1 / 2 ^ 24)) * (q * q)"
    using q by (intro mult_right_mono) simp_all
  moreover have "z * (q * q) = x" using q by (simp add: z_def)
  ultimately show "x \<le> (sqrtf x * (1 + 1 / 2 ^ 24)) * (sqrtf x * (1 + 1 / 2 ^ 24))"
    by (simp add: sq algebra_simps)
qed

text \<open>
  A radius beyond 4095: at the offsets of a corner pixel that lies in the framebuffer,
  which are below 640 and 400, the squared distance is at least 7/5 of \<open>r\<^sup>2\<close>, and both
  tests hold.
\<close>

lemma corner_far_int:
  fixes r dx dy :: int
  assumes "4096 \<le> r" "0 \<le> dx" "dx \<le> 639" "0 \<le> dy" "dy \<le> 399"
  shows "7 * (r * r) \<le> 5 * ((r - dx) * (r - dx) + (r - dy) * (r - dy))"
proof -
  define P where "P = r * r"
  define A where "A = (r - dx) * (r - dx)"
  define B where "B = (r - dy) * (r - dy)"
  have "(r - 639) * (r - 639) \<le> A"
    unfolding A_def using assms by (intro mult_mono) simp_all
  moreover have "(r - 639) * (r - 639) = P - 1278 * r + 408321" by (simp add: P_def algebra_simps)
  ultimately have a: "P - 1278 * r + 408321 \<le> A" by simp
  have "(r - 399) * (r - 399) \<le> B"
    unfolding B_def using assms by (intro mult_mono) simp_all
  moreover have "(r - 399) * (r - 399) = P - 798 * r + 159201" by (simp add: P_def algebra_simps)
  ultimately have b: "P - 798 * r + 159201 \<le> B" by simp
  have c: "4096 * r \<le> P" unfolding P_def using assms(1) by (intro mult_right_mono) simp_all
  have "7 * P \<le> 5 * A + 5 * B" using a b c assms(1) by linarith
  then have "7 * P \<le> 5 * (A + B)" by (simp only: distrib_left)
  then show ?thesis by (simp only: P_def A_def B_def)
qed

lemma corner_test_far:
  assumes "4096 \<le> r" "0 \<le> dx" "dx \<le> 639" "0 \<le> dy" "dy \<le> 399"
  shows "r * r < (r - dx) * (r - dx) + (r - dy) * (r - dy)"
    and "float_of_int r < sqrtf (float_of_int ((r - dx) * (r - dx) + (r - dy) * (r - dy)))"
proof -
  define N where "N = (r - dx) * (r - dx) + (r - dy) * (r - dy)"
  define a :: rat where "a = of_int (r * r)"
  define c :: rat where "c = 1 + 1 / 2 ^ 24"
  have far: "7 * (r * r) \<le> 5 * N" unfolding N_def using assms by (rule corner_far_int)
  have rr: "0 < r * r" using assms(1) by (intro mult_pos_pos) simp_all
  define P where "P = r * r"
  have "7 * P \<le> 5 * N" "0 < P" using far rr by (simp_all only: P_def)
  then have "P < N" by linarith
  then show "r * r < (r - dx) * (r - dx) + (r - dy) * (r - dy)"
    by (simp only: P_def N_def)
  have a0: "0 < a" using rr unfolding a_def by (simp only: of_int_0_less_iff)
  have Nr: "7 * a \<le> 5 * of_int N"
  proof -
    have "(of_int (7 * (r * r)) :: rat) \<le> of_int (5 * N)" using far by (simp only: of_int_le_iff)
    then show ?thesis by (simp add: a_def)
  qed
  have Npos: "(0::rat) < of_int N" using Nr a0 by linarith
  have rpos: "(0::rat) < of_int r" using assms(1) by simp
  define R where "R = float_of_int r"
  define X where "X = float_of_int N"
  define T where "T = sqrtf X"
  have R: "R \<le> of_int r * c" "0 < R"
    using f32_rel(2) [OF rpos] f32_pos [OF rpos] by (simp_all add: R_def float_of_int_def c_def)
  have X: "of_int N * (1 - 1 / 2 ^ 24) \<le> X" "0 < X"
    using f32_rel(1) [OF Npos] f32_pos [OF Npos] by (simp_all add: X_def float_of_int_def)
  have T: "0 \<le> T" "X \<le> (T * c) * (T * c)"
    using sqrtf_lower [OF X(2)] by (simp_all add: T_def c_def)
  have "R < T"
  proof (rule ccontr)
    assume "\<not> R < T"
    then have TR: "T \<le> R" by simp
    have c0: "0 \<le> c" by (simp add: c_def)
    have "T \<le> of_int r * c" using TR R(1) by linarith
    then have "T * c \<le> (of_int r * c) * c"
      using c0 by (rule mult_right_mono)
    moreover have "0 \<le> T * c" using T(1) c0 by simp
    moreover have "0 \<le> (of_int r * c) * c" using calculation by linarith
    ultimately have "(T * c) * (T * c) \<le> ((of_int r * c) * c) * ((of_int r * c) * c)"
      by (meson mult_mono)
    also have "\<dots> = a * (c * c * c * c)" by (simp add: a_def algebra_simps)
    finally have "X \<le> a * (c * c * c * c)" using T(2) by linarith
    then have "of_int N * (1 - 1 / 2 ^ 24) \<le> a * (c * c * c * c)" using X(1) by linarith
    moreover have "7 * a * (1 - 1 / 2 ^ 24) \<le> 5 * of_int N * (1 - 1 / 2 ^ 24)"
      using Nr by (intro mult_right_mono) simp_all
    ultimately have "7 * a * (1 - 1 / 2 ^ 24) \<le> 5 * (a * (c * c * c * c))" by linarith
    then have "a * (7 * (1 - 1 / 2 ^ 24)) \<le> a * (5 * (c * c * c * c))" by (simp add: algebra_simps)
    then have "7 * (1 - 1 / 2 ^ 24) \<le> 5 * (c * c * c * c)" using a0 by (simp only: mult_le_cancel_left_pos)
    then show False by (simp add: c_def)
  qed
  then show "float_of_int r < sqrtf (float_of_int ((r - dx) * (r - dx) + (r - dy) * (r - dy)))"
    by (simp only: R_def T_def X_def N_def)
qed


lemma ws_test_on_grid:
  assumes "0 \<le> x0" "0 \<le> y0" "x0 + w \<le> FB_W" "y0 + h \<le> FB_H"
    and d: "0 \<le> dx" "dx < r" "0 \<le> dy" "dy < r"
    and m: "(x, y) \<in> set (corners x0 y0 w h dx dy)" "in_grid y x"
  shows "(float_of_int r < sqrtf (float_of_int ((r - dx) * (r - dx) + (r - dy) * (r - dy)))) =
         (r * r < (r - dx) * (r - dx) + (r - dy) * (r - dy))"
proof (cases "r \<le> 4095")
  case True
  with d show ?thesis by (intro corner_test_equiv)
next
  case False
  then have r: "4096 \<le> r" by simp
  have b: "dx \<le> 639" "dy \<le> 399"
    using m assms(1-4) d by (auto simp add: corners_def in_grid_def)
  show ?thesis
    using corner_test_far [OF r d(1) b(1) d(3) b(2)] by simp
qed

lemma draw_rounded_rect_ws_paint_in_bounds:
  assumes "0 \<le> x0" "0 \<le> y0" "x0 + w \<le> FB_W" "y0 + h \<le> FB_H" and r: "r \<le> 32767"
  shows "draw_rounded_rect_ws x0 y0 w h r fill (Fb f) =
         Fb (paint (\<lambda>y x. in_grid y x \<and> corner_cut x0 y0 w h r y x) (\<lambda>y x. bg_ws y)
               (paint (in_rect x0 y0 w h) (\<lambda>_ _. fill) f))"
  unfolding draw_rounded_rect_ws_paint_int
proof (rule arg_cong [where f = Fb], rule paint_cong_region)
  fix y x
  have "(0 \<le> dy \<and> dy < r \<and> 0 \<le> dx \<and> dx < r \<and>
          float_of_int r < sqrtf (float_of_int
             (int32 (int32 ((r - dx) * (r - dx)) + int32 ((r - dy) * (r - dy))))) \<and>
          (x, y) \<in> set (corners x0 y0 w h dx dy)) =
        (0 \<le> dy \<and> dy < r \<and> 0 \<le> dx \<and> dx < r \<and>
          r * r < (r - dx) * (r - dx) + (r - dy) * (r - dy) \<and>
          (x, y) \<in> set (corners x0 y0 w h dx dy))" if "in_grid y x" for dy dx
    using corner_sq_int32(2) [of dx r dy] ws_test_on_grid [OF assms(1-4), of dx r dy x y] r that
    by auto
  then show "(in_grid y x \<and>
           (\<exists>dy dx. 0 \<le> dy \<and> dy < r \<and> 0 \<le> dx \<and> dx < r \<and>
              float_of_int r < sqrtf (float_of_int
                 (int32 (int32 ((r - dx) * (r - dx)) + int32 ((r - dy) * (r - dy))))) \<and>
              (x, y) \<in> set (corners x0 y0 w h dx dy))) =
        (in_grid y x \<and> corner_cut x0 y0 w h r y x)"
    unfolding corner_cut_iff by blast
qed

lemma pix_rounded_rect:
  assumes "in_rect x0 y0 w h y x"
  shows "pix (Fb (paint (\<lambda>y x. in_grid y x \<and> corner_cut x0 y0 w h r y x) (\<lambda>y x. bg y)
               (paint (in_rect x0 y0 w h) (\<lambda>_ _. fill) f))) x y =
         Some (if corner_cut x0 y0 w h r y x then bg y else fill)"
  using assms by (simp add: pix_def paint_def in_rect_def)

lemma f32_nonpos: "x \<le> 0 \<Longrightarrow> f32 x \<le> 0"
  using f32_mono [of x 0] by (simp add: f32_zero)

lemma pix_paint_outside: "\<not> A y x \<Longrightarrow> pix (Fb (paint A col g)) x y = pix (Fb g) x y"
  by (simp add: pix_def paint_def)

lemma corners_of_origin:
  "(0, 0) \<in> set (corners 0 0 640 400 dx dy) \<longleftrightarrow> (dx = 0 \<or> dx = 639) \<and> (dy = 0 \<or> dy = 399)"
  by (auto simp add: corners_def)

lemma wrapped_squares_40000:
  "int32 (40000 * 40000) = 1600000000"
  "int32 (int32 ((40000 - 0) * (40000 - 0)) + int32 ((40000 - 0) * (40000 - 0))) = - 1094967296"
  "int32 (int32 ((40000 - 639) * (40000 - 639)) + int32 ((40000 - 0) * (40000 - 0))) = - 1145678975"
  "int32 (int32 ((40000 - 0) * (40000 - 0)) + int32 ((40000 - 399) * (40000 - 399))) = - 1126728095"
  "int32 (int32 ((40000 - 639) * (40000 - 639)) + int32 ((40000 - 399) * (40000 - 399))) = - 1177439774"
  by (simp_all add: int32_def)

text \<open>
  C4 (as stated). The claim is for every radius. The squared distance is computed in
  \<^verbatim>\<open>int\<close>: at the radius 40000 and the offset (0, 0) it is \<open>2 * 40000\<^sup>2 = 3200000000\<close>, more
  than \<open>40000\<^sup>2\<close> and more than the largest \<^verbatim>\<open>int\<close>; the \<^verbatim>\<open>int\<close> that holds it is negative,
  the test fails, and the corner pixel (0, 0) of the rectangle that covers the framebuffer
  keeps the fill colour, in fb.h and in weatherstar.c.
\<close>

theorem corner_kept_at_radius_40000:
  "corner_cut 0 0 640 400 40000 0 0 \<and>
   pix (fb_clear fb_init) 0 0 = Some COL_GRADTOP \<and>
   pix (draw_rounded_rect 0 0 640 400 40000 (rgb 15 25 90) (fb_clear fb_init)) 0 0 =
     Some (rgb 15 25 90) \<and>
   pix (fb_clear_ws fb_init) 0 0 = Some COL_GRADTOP \<and>
   pix (draw_rounded_rect_ws 0 0 640 400 40000 (rgb 15 25 90) (fb_clear_ws fb_init)) 0 0 =
     Some (rgb 15 25 90) \<and>
   COL_GRADTOP \<noteq> rgb 15 25 90"
proof -
  have g: "in_grid 0 0" "in_rect 0 0 640 400 0 0" by (simp_all add: in_grid_def in_rect_def)
  have c: "corner_cut 0 0 640 400 40000 0 0" by (simp add: corner_cut_def)
  have k: "\<not> (\<exists>dy dx. 0 \<le> dy \<and> dy < 40000 \<and> 0 \<le> dx \<and> dx < 40000 \<and>
               int32 (40000 * 40000) <
                 int32 (int32 ((40000 - dx) * (40000 - dx)) + int32 ((40000 - dy) * (40000 - dy))) \<and>
               (0, 0) \<in> set (corners 0 0 640 400 dx dy))"
    unfolding corners_of_origin using wrapped_squares_40000 by auto
  have neg: "float_of_int v \<le> 0" if "v \<le> 0" for v
    unfolding float_of_int_def using that by (intro f32_nonpos) simp
  have kw: "\<not> (\<exists>dy dx. 0 \<le> dy \<and> dy < 40000 \<and> 0 \<le> dx \<and> dx < 40000 \<and>
               float_of_int 40000 < sqrtf (float_of_int
                 (int32 (int32 ((40000 - dx) * (40000 - dx)) + int32 ((40000 - dy) * (40000 - dy))))) \<and>
               (0, 0) \<in> set (corners 0 0 640 400 dx dy))"
    unfolding corners_of_origin
    using wrapped_squares_40000 neg [of "- 1094967296"] neg [of "- 1145678975"]
      neg [of "- 1126728095"] neg [of "- 1177439774"]
    by (auto simp add: sqrtf_def)
  have "pix (Fb (paint (\<lambda>y x. in_grid y x \<and>
               (\<exists>dy dx. 0 \<le> dy \<and> dy < 40000 \<and> 0 \<le> dx \<and> dx < 40000 \<and>
                  int32 (40000 * 40000) <
                    int32 (int32 ((40000 - dx) * (40000 - dx)) + int32 ((40000 - dy) * (40000 - dy))) \<and>
                  (x, y) \<in> set (corners 0 0 640 400 dx dy)))
             (\<lambda>y x. fb_bg_at y) G)) 0 0 = pix (Fb G) 0 0" for G
    using k by (intro pix_paint_outside) blast
  then have 1: "pix (draw_rounded_rect 0 0 640 400 40000 (rgb 15 25 90) (fb_clear fb_init)) 0 0 =
           Some (rgb 15 25 90)"
    by (simp only: fb_init_def fb_clear_paint draw_rounded_rect_paint_int)
       (simp add: pix_def paint_def in_rect_def in_grid_def)
  have "pix (Fb (paint (\<lambda>y x. in_grid y x \<and>
               (\<exists>dy dx. 0 \<le> dy \<and> dy < 40000 \<and> 0 \<le> dx \<and> dx < 40000 \<and>
                  float_of_int 40000 < sqrtf (float_of_int
                    (int32 (int32 ((40000 - dx) * (40000 - dx)) + int32 ((40000 - dy) * (40000 - dy))))) \<and>
                  (x, y) \<in> set (corners 0 0 640 400 dx dy)))
             (\<lambda>y x. bg_ws y) G)) 0 0 = pix (Fb G) 0 0" for G
    using kw by (intro pix_paint_outside) blast
  then have 2: "pix (draw_rounded_rect_ws 0 0 640 400 40000 (rgb 15 25 90) (fb_clear_ws fb_init)) 0 0 =
           Some (rgb 15 25 90)"
    by (simp only: fb_init_def fb_clear_ws_paint draw_rounded_rect_ws_paint_int)
       (simp add: pix_def paint_def in_rect_def in_grid_def)
  have 3: "pix (fb_clear fb_init) 0 0 = Some COL_GRADTOP" "pix (fb_clear_ws fb_init) 0 0 = Some COL_GRADTOP"
    using g(1) by (simp_all add: fb_init_def pix_fb_clear pix_fb_clear_ws bg_row0)
  have 4: "COL_GRADTOP \<noteq> rgb 15 25 90" by (simp add: COL_GRADTOP_def rgb_def)
  show ?thesis using c 1 2 3 4 by (simp only: simp_thms)
qed

text \<open>
  C4 (amended). For a radius up to 32767, where the squared distances fit an \<^verbatim>\<open>int\<close>: on
  a framebuffer freshly filled by \<open>fb_clear\<close>, and for a rectangle that lies in the
  framebuffer, \<open>draw_rounded_rect\<close> leaves every pixel of the rectangle that is a
  corner-block pixel at an offset (dx, dy) with \<open>(r - dx)\<^sup>2 + (r - dy)\<^sup>2 > r\<^sup>2\<close> as
  \<open>fb_clear\<close> made it, which is the background colour of its row, and every other pixel of
  the rectangle equal to the fill colour. This holds for fb.h and for weatherstar.c, each
  with its own \<open>fb_clear\<close> and background colour: the floating-point test of weatherstar.c
  is the integer test at every offset of a pixel of the framebuffer.
\<close>

theorem draw_rounded_rect_corners_and_fill:
  assumes "0 \<le> x0" "0 \<le> y0" "x0 + w \<le> FB_W" "y0 + h \<le> FB_H"
    and "x0 \<le> x" "x < x0 + w" "y0 \<le> y" "y < y0 + h"
    and "r \<le> 32767"
  shows "pix (draw_rounded_rect x0 y0 w h r fill (fb_clear (Fb f))) x y =
           (if corner_cut x0 y0 w h r y x then pix (fb_clear (Fb f)) x y else Some fill) \<and>
         pix (fb_clear (Fb f)) x y = Some (fb_bg_at y) \<and>
         pix (draw_rounded_rect_ws x0 y0 w h r fill (fb_clear_ws (Fb f))) x y =
           (if corner_cut x0 y0 w h r y x then pix (fb_clear_ws (Fb f)) x y else Some fill) \<and>
         pix (fb_clear_ws (Fb f)) x y = Some (bg_ws y)"
proof -
  have r: "in_rect x0 y0 w h y x" using assms by (simp add: in_rect_def in_grid_def)
  then have g: "in_grid y x" by (simp add: in_rect_def)
  have "pix (draw_rounded_rect_ws x0 y0 w h r fill (fb_clear_ws (Fb f))) x y =
          Some (if corner_cut x0 y0 w h r y x then bg_ws y else fill)"
    using r by (simp add: fb_clear_ws_paint draw_rounded_rect_ws_paint_in_bounds [OF assms(1-4,9)]
                  pix_rounded_rect)
  moreover have "pix (draw_rounded_rect x0 y0 w h r fill (fb_clear (Fb f))) x y =
          Some (if corner_cut x0 y0 w h r y x then fb_bg_at y else fill)"
    using r by (simp add: fb_clear_paint draw_rounded_rect_paint [OF assms(9)] pix_rounded_rect)
  ultimately show ?thesis
    using g by (simp add: pix_fb_clear pix_fb_clear_ws)
qed

lemma card_corner_cut:
  "corner_cut 20 104 600 140 6 104 20" "corner_cut 20 104 600 140 6 104 619"
  "corner_cut 20 104 600 140 6 243 20" "corner_cut 20 104 600 140 6 243 619"
  "\<not> corner_cut 20 104 600 140 6 106 22" "\<not> corner_cut 20 104 600 140 6 150 300"
  by code_simp+

theorem draw_rounded_rect_corners_and_fill_witness:
  "pix (draw_rounded_rect 20 104 600 140 6 (rgb 15 25 90) (fb_clear fb_init)) 20 104 =
     Some (fb_bg_at 104) \<and>
   pix (draw_rounded_rect 20 104 600 140 6 (rgb 15 25 90) (fb_clear fb_init)) 619 104 =
     Some (fb_bg_at 104) \<and>
   pix (draw_rounded_rect 20 104 600 140 6 (rgb 15 25 90) (fb_clear fb_init)) 20 243 =
     Some (fb_bg_at 243) \<and>
   pix (draw_rounded_rect_ws 20 104 600 140 6 (rgb 15 25 90) (fb_clear_ws fb_init)) 619 243 =
     Some (bg_ws 243) \<and>
   pix (draw_rounded_rect 20 104 600 140 6 (rgb 15 25 90) (fb_clear fb_init)) 22 106 =
     Some (rgb 15 25 90) \<and>
   pix (draw_rounded_rect_ws 20 104 600 140 6 (rgb 15 25 90) (fb_clear_ws fb_init)) 300 150 =
     Some (rgb 15 25 90)"
  using draw_rounded_rect_corners_and_fill [of 20 104 600 140 20 104 6 "rgb 15 25 90" "\<lambda>y x. rgb 0 0 0"]
        draw_rounded_rect_corners_and_fill [of 20 104 600 140 619 104 6 "rgb 15 25 90" "\<lambda>y x. rgb 0 0 0"]
        draw_rounded_rect_corners_and_fill [of 20 104 600 140 20 243 6 "rgb 15 25 90" "\<lambda>y x. rgb 0 0 0"]
        draw_rounded_rect_corners_and_fill [of 20 104 600 140 619 243 6 "rgb 15 25 90" "\<lambda>y x. rgb 0 0 0"]
        draw_rounded_rect_corners_and_fill [of 20 104 600 140 22 106 6 "rgb 15 25 90" "\<lambda>y x. rgb 0 0 0"]
        draw_rounded_rect_corners_and_fill [of 20 104 600 140 300 150 6 "rgb 15 25 90" "\<lambda>y x. rgb 0 0 0"]
  by (simp add: fb_init_def card_corner_cut)

text \<open>
  C5 (as stated). The claim says that the two corner tests agree for every radius. At
  \<open>r = 4096\<close>, \<open>dx = 0\<close>, \<open>dy = 4095\<close> the squared distance is \<open>2\<^sup>2\<^sup>4 + 1\<close>, which is more
  than \<open>r\<^sup>2\<close>; as a float it is \<open>2\<^sup>2\<^sup>4\<close>, whose square root is 4096, which is not more
  than \<open>r\<close>.
\<close>

lemma float_of_int_2p24_1: "float_of_int 16777217 = 16777216"
  by code_simp

lemma sqrtf_2p24: "sqrtf 16777216 = 4096"
  by code_simp

theorem corner_tests_differ_at_4096:
  "(4096 * 4096 :: int) < (4096 - 0) * (4096 - 0) + (4096 - 4095) * (4096 - 4095) \<and>
   \<not> float_of_int 4096 < sqrtf (float_of_int ((4096 - 0) * (4096 - 0) + (4096 - 4095) * (4096 - 4095)))"
  by (simp add: float_of_int_2p24_1 sqrtf_2p24)

text \<open>
  C5 (amended). For every radius up to 4095 and offsets dx, dy in \<open>[0, r)\<close>, the
  floating-point test of weatherstar.c holds exactly when the squared-distance test of
  fb.h holds, and for these radii the two \<open>draw_rounded_rect\<close> knock out the same pixels:
  those of the framebuffer that \<open>corner_cut\<close> describes, each file restoring its own
  background colour.
\<close>

theorem corner_tests_agree_up_to_4095:
  assumes "0 \<le> dx" "dx < r" "0 \<le> dy" "dy < r" "r \<le> 4095"
  shows "(float_of_int r < sqrtf (float_of_int ((r - dx) * (r - dx) + (r - dy) * (r - dy)))) =
           (r * r < (r - dx) * (r - dx) + (r - dy) * (r - dy)) \<and>
         draw_rounded_rect x0 y0 w h r fill (Fb f) =
           Fb (paint (\<lambda>y x. in_grid y x \<and> corner_cut x0 y0 w h r y x) (\<lambda>y x. fb_bg_at y)
                 (paint (in_rect x0 y0 w h) (\<lambda>_ _. fill) f)) \<and>
         draw_rounded_rect_ws x0 y0 w h r fill (Fb f) =
           Fb (paint (\<lambda>y x. in_grid y x \<and> corner_cut x0 y0 w h r y x) (\<lambda>y x. bg_ws y)
                 (paint (in_rect x0 y0 w h) (\<lambda>_ _. fill) f))"
proof -
  have "r \<le> 32767" using assms(5) by simp
  then show ?thesis
    using assms
    by (simp only: corner_test_equiv draw_rounded_rect_paint draw_rounded_rect_ws_paint simp_thms)
qed

theorem corner_tests_agree_up_to_4095_witness:
  "(float_of_int 6 < sqrtf (float_of_int ((6 - 0) * (6 - 0) + (6 - 0) * (6 - 0)))) =
     ((6 * 6 :: int) < (6 - 0) * (6 - 0) + (6 - 0) * (6 - 0)) \<and>
   (float_of_int 6 < sqrtf (float_of_int ((6 - 2) * (6 - 2) + (6 - 2) * (6 - 2)))) =
     ((6 * 6 :: int) < (6 - 2) * (6 - 2) + (6 - 2) * (6 - 2))"
  using corner_tests_agree_up_to_4095 [of 0 6 0 20 104 600 140 "rgb 15 25 90" "\<lambda>y x. rgb 0 0 0"]
        corner_tests_agree_up_to_4095 [of 2 6 2 20 104 600 140 "rgb 15 25 90" "\<lambda>y x. rgb 0 0 0"]
  by simp

section \<open>The drawing operations as painted regions\<close>

lemma paints_in_paint:
  "(\<And>f. op (Fb f) = Fb (paint A col f)) \<Longrightarrow> (\<And>y x. A y x \<Longrightarrow> R y x) \<Longrightarrow> paints_in op R"
  by (rule paints_inI)

lemma paints_in_fb_rect: "paints_in (fb_rect x0 y0 w h c) (in_rect x0 y0 w h)"
  by (rule paints_inI [OF fb_rect_paint])

lemma paints_in_fb_rect_grad_v: "paints_in (fb_rect_grad_v x0 y0 w h ctop cbot) (in_rect x0 y0 w h)"
  by (rule paints_inI [OF fb_rect_grad_v_paint])

lemma paints_in_fb_hline: "paints_in (fb_hline x0 x1 y c) (in_rect x0 y (x1 - x0 + 1) 1)"
  by (rule paints_inI [OF fb_hline_paint]) (auto simp add: in_rect_def)

lemma paints_in_fb_clear: "paints_in fb_clear in_grid"
  by (rule paints_inI [OF fb_clear_paint])

lemma paints_in_fb_clear_ws: "paints_in fb_clear_ws in_grid"
  by (rule paints_inI [OF fb_clear_ws_paint])

lemma paints_in_guarded_store:
  assumes "g \<Longrightarrow> in_grid y x \<and> R y x"
  shows "paints_in (\<lambda>s. if g then fb_store y x c s else s) R"
  using assms by (intro paints_in_if paints_in_store) simp_all

lemma paints_in_blit_block:
  "paints_in (blit_block px py row col fg scale)
     (in_rect (px + col * scale) (py + row * scale) scale scale)"
  unfolding blit_block_def Let_def
  by (intro paints_in_for_loop paints_in_guarded_store) (simp add: in_rect_def in_grid_def)

lemma block_in_box:
  assumes "0 \<le> row" "row < nr" "0 \<le> col" "col < nc"
    and "in_rect (px + col * scale) (py + row * scale) scale scale y x"
  shows "in_rect px py (nc * scale) (nr * scale) y x"
proof -
  have s: "0 < scale" using assms(5) by (simp add: in_rect_def)
  have "0 \<le> col * scale" "0 \<le> row * scale" using assms s by simp_all
  moreover have "(col + 1) * scale \<le> nc * scale" using assms s by (intro mult_right_mono) simp_all
  moreover have "(row + 1) * scale \<le> nr * scale" using assms s by (intro mult_right_mono) simp_all
  ultimately show ?thesis using assms(5) by (simp add: in_rect_def algebra_simps)
qed

lemma paints_in_fb_char:
  "paints_in (fb_char px py ch fg scale) (in_rect px py (5 * scale) (7 * scale))"
  unfolding fb_char_def
proof (intro paints_in_for_loop paints_in_if)
  fix row col :: int
  assume "0 \<le> row" "row < 7" "0 \<le> col" "col < 5"
  then show "paints_in (blit_block px py row col fg scale) (in_rect px py (5 * scale) (7 * scale))"
    by (intro paints_in_weaken [OF paints_in_blit_block]) (rule block_in_box)
qed

lemma paints_in_fb_degree:
  "paints_in (fb_degree px py fg scale) (in_rect px py (3 * scale) (3 * scale))"
  unfolding fb_degree_def
proof (intro paints_in_for_loop paints_in_if)
  fix row col :: int
  assume "0 \<le> row" "row < 3" "0 \<le> col" "col < 3"
  then show "paints_in (blit_block px py row col fg scale) (in_rect px py (3 * scale) (3 * scale))"
    by (intro paints_in_weaken [OF paints_in_blit_block]) (rule block_in_box)
qed

lemma paints_in_fb_string_loop:
  "paints_in (\<lambda>st. snd (fb_string_loop px py s fg scale st))
     (\<lambda>y x. in_grid y x \<and> py \<le> y \<and> y < py + 7 * scale \<and> px \<le> x \<and> 0 < scale)"
proof (induction s arbitrary: px)
  case Nil
  then show ?case by (simp add: paints_in_skip)
next
  case (Cons ch s)
  show ?case
  proof (cases "ch = CHR 0x00")
    case True
    then show ?thesis by (simp add: paints_in_skip)
  next
    case False
    have 1: "paints_in (fb_char px py ch fg scale)
               (\<lambda>y x. in_grid y x \<and> py \<le> y \<and> y < py + 7 * scale \<and> px \<le> x \<and> 0 < scale)"
      by (rule paints_in_weaken [OF paints_in_fb_char]) (auto simp add: in_rect_def)
    have 2: "paints_in (\<lambda>st. snd (fb_string_loop (px + 6 * scale) py s fg scale st))
               (\<lambda>y x. in_grid y x \<and> py \<le> y \<and> y < py + 7 * scale \<and> px \<le> x \<and> 0 < scale)"
      by (rule paints_in_weaken [OF Cons]) auto
    show ?thesis using False paints_in_comp [OF 1 2] by simp
  qed
qed

lemma paints_in_fb_string:
  "paints_in (fb_string px py s fg scale)
     (\<lambda>y x. in_grid y x \<and> py \<le> y \<and> y < py + 7 * scale \<and> px \<le> x)"
  unfolding fb_string_def [abs_def]
  by (rule paints_in_weaken [OF paints_in_fb_string_loop]) simp

lemma paints_in_fb_string_centered:
  "paints_in (fb_string_centered py s fg scale)
     (\<lambda>y x. in_grid y x \<and> py \<le> y \<and> y < py + 7 * scale)"
  unfolding fb_string_centered_def Let_def
  by (rule paints_in_weaken [OF paints_in_fb_string]) simp

lemma paints_in_fill_circle:
  "paints_in (fill_circle cx cy r col) (in_rect (cx - r) (cy - r) (2 * r + 1) (2 * r + 1))"
  unfolding fill_circle_def Let_def
  by (intro paints_in_for_loop paints_in_if paints_in_guarded_store)
     (simp add: in_rect_def in_grid_def)

lemma paints_in_cloud_lobe:
  assumes "cx - 20 \<le> c - r" "c + r \<le> cx + 20" "cy - 12 \<le> d - r" "d + r \<le> cy + 14"
  shows "paints_in (fill_circle c d r col) (in_rect (cx - 20) (cy - 12) 41 27)"
  using assms by (intro paints_in_weaken [OF paints_in_fill_circle]) (simp add: in_rect_def)

lemma paints_in_draw_cloud:
  "paints_in (draw_cloud cx cy col) (in_rect (cx - 20) (cy - 12) 41 27)"
  unfolding draw_cloud_def
proof (intro paints_in_for_loop)
  fix i :: int
  assume "0 \<le> i" "i < 3"
  then consider "i = 0" | "i = 1" | "i = 2" by linarith
  then show "paints_in (\<lambda>s. case cloud_offsets ! nat i of
                 (ox, oy, r) \<Rightarrow> fill_circle (cx + ox) (cy + oy) r col s)
               (in_rect (cx - 20) (cy - 12) 41 27)"
  proof cases
    case 1
    then show ?thesis by (simp add: cloud_offsets_def paints_in_cloud_lobe)
  next
    case 2
    then show ?thesis by (simp add: cloud_offsets_def paints_in_cloud_lobe)
  next
    case 3
    then show ?thesis by (simp add: cloud_offsets_def paints_in_cloud_lobe)
  qed
qed

lemma paints_in_knock_out:
  "R (snd p) (fst p) \<or> \<not> in_grid (snd p) (fst p) \<Longrightarrow> paints_in (knock_out bg p) R"
  by (cases p) (auto simp add: knock_out_paint intro!: paints_inI)


lemma paints_in_if_not:
  "(\<not> c \<Longrightarrow> paints_in op R) \<Longrightarrow> paints_in (\<lambda>s. if c then s else op s) R"
  by (cases c) (simp_all add: paints_in_skip)

lemma paints_in_corners:
  assumes "\<And>p. p \<in> set (corners x0 y0 w h dx dy) \<Longrightarrow> in_grid (snd p) (fst p) \<Longrightarrow> R (snd p) (fst p)"
  shows "paints_in (fold (knock_out bg) (corners x0 y0 w h dx dy)) R"
  using assms by (intro paints_in_fold paints_in_knock_out) blast

text \<open>A corner pixel lies on the rows from \<open>y0\<close> on when the radius is at most the height.\<close>

lemma corners_rows:
  assumes "p \<in> set (corners x0 y0 w h dx dy)" "0 \<le> dy" "dy < r" "r \<le> h"
  shows "y0 \<le> snd p"
  using assms by (auto simp add: corners_def)

lemma paints_in_draw_rounded_rect:
  assumes "\<And>y x. in_grid y x \<Longrightarrow> r \<le> h \<longrightarrow> y0 \<le> y \<Longrightarrow> R y x"
  shows "paints_in (draw_rounded_rect x0 y0 w h r fill) R"
proof -
  have A: "paints_in (fb_rect x0 y0 w h fill) R"
    by (rule paints_in_weaken [OF paints_in_fb_rect]) (simp add: in_rect_def assms)
  have B: "paints_in (for_loop 0 r (\<lambda>dy. for_loop 0 r (\<lambda>dx s.
             if int32 (int32 ((r - dx) * (r - dx)) + int32 ((r - dy) * (r - dy))) \<le> int32 (r * r)
             then s
             else fold (knock_out fb_bg_at) (corners x0 y0 w h dx dy) s))) R"
  proof (intro paints_in_for_loop paints_in_if_not paints_in_corners)
    fix dy dx p
    assume "0 \<le> dy" "dy < r" "p \<in> set (corners x0 y0 w h dx dy)" "in_grid (snd p) (fst p)"
    then show "R (snd p) (fst p)"
      using corners_rows[of p x0 y0 w h dx dy r] by (intro assms) simp_all
  qed
  show ?thesis
    using paints_in_comp [OF A B] by (simp add: draw_rounded_rect_def [abs_def] Let_def)
qed

lemma paints_in_draw_rounded_rect_ws:
  assumes "\<And>y x. in_grid y x \<Longrightarrow> r \<le> h \<longrightarrow> y0 \<le> y \<Longrightarrow> R y x"
  shows "paints_in (draw_rounded_rect_ws x0 y0 w h r fill) R"
proof -
  have A: "paints_in (fb_rect x0 y0 w h fill) R"
    by (rule paints_in_weaken [OF paints_in_fb_rect]) (simp add: in_rect_def assms)
  have B: "paints_in (for_loop 0 r (\<lambda>dy. for_loop 0 r (\<lambda>dx s.
             if float_of_int r < sqrtf (float_of_int
                    (int32 (int32 ((r - dx) * (r - dx)) + int32 ((r - dy) * (r - dy)))))
             then fold (knock_out bg_ws) (corners x0 y0 w h dx dy) s else s))) R"
  proof (intro paints_in_for_loop paints_in_if paints_in_corners)
    fix dy dx p
    assume "0 \<le> dy" "dy < r" "p \<in> set (corners x0 y0 w h dx dy)" "in_grid (snd p) (fst p)"
    then show "R (snd p) (fst p)"
      using corners_rows[of p x0 y0 w h dx dy r] by (intro assms) simp_all
  qed
  show ?thesis
    using paints_in_comp [OF A B] by (simp add: draw_rounded_rect_ws_def [abs_def] Let_def)
qed

text \<open>The sun: \<open>draw_sun\<close> of icons.h checks both stores of a ray pixel.\<close>

lemma paints_in_two_stores:
  assumes "g1 \<Longrightarrow> in_grid y1 x1 \<and> R y1 x1" "g2 \<Longrightarrow> in_grid y2 x2 \<and> R y2 x2"
  shows "paints_in (\<lambda>s. if g2 then fb_store y2 x2 c (if g1 then fb_store y1 x1 c s else s)
                          else (if g1 then fb_store y1 x1 c s else s)) R"
proof -
  have A: "paints_in (\<lambda>s. if g1 then fb_store y1 x1 c s else s) R"
    using assms(1) by (intro paints_in_guarded_store)
  have B: "paints_in (\<lambda>s. if g2 then fb_store y2 x2 c s else s) R"
    using assms(2) by (intro paints_in_guarded_store)
  have "(\<lambda>s. if g2 then fb_store y2 x2 c (if g1 then fb_store y1 x1 c s else s)
             else (if g1 then fb_store y1 x1 c s else s)) =
        (\<lambda>s. (\<lambda>s. if g2 then fb_store y2 x2 c s else s)
               ((\<lambda>s. if g1 then fb_store y1 x1 c s else s) s))"
    by (simp add: fun_eq_iff)
  then show ?thesis using paints_in_comp [OF A B] by (simp only:)
qed

lemma paints_in_rays:
  assumes "\<And>i d. r + 3 \<le> d \<Longrightarrow> d < r + 10 \<Longrightarrow>
             in_grid (ray_py lm cy i d) (ray_px lm cx i d) \<longrightarrow> R (ray_py lm cy i d) (ray_px lm cx i d)"
    and "\<And>i d. r + 3 \<le> d \<Longrightarrow> d < r + 10 \<Longrightarrow>
             in_grid (ray_py lm cy i d) (ray_px lm cx i d + 1) \<longrightarrow>
             R (ray_py lm cy i d) (ray_px lm cx i d + 1)"
  shows "paints_in (for_loop 0 8 (\<lambda>i. for_loop (r + 3) (r + 10) (\<lambda>d s.
           if 0 \<le> ray_px lm cx i d + 1 \<and> ray_px lm cx i d + 1 < FB_W \<and>
              0 \<le> ray_py lm cy i d \<and> ray_py lm cy i d < FB_H
           then fb_store (ray_py lm cy i d) (ray_px lm cx i d + 1) COL_ORANGE
                  (if 0 \<le> ray_px lm cx i d \<and> ray_px lm cx i d < FB_W \<and>
                      0 \<le> ray_py lm cy i d \<and> ray_py lm cy i d < FB_H
                   then fb_store (ray_py lm cy i d) (ray_px lm cx i d) COL_ORANGE s else s)
           else (if 0 \<le> ray_px lm cx i d \<and> ray_px lm cx i d < FB_W \<and>
                    0 \<le> ray_py lm cy i d \<and> ray_py lm cy i d < FB_H
                 then fb_store (ray_py lm cy i d) (ray_px lm cx i d) COL_ORANGE s else s)))) R"
proof (intro paints_in_for_loop paints_in_two_stores)
  fix i d :: int
  assume d: "r + 3 \<le> d" "d < r + 10"
  show "in_grid (ray_py lm cy i d) (ray_px lm cx i d) \<and> R (ray_py lm cy i d) (ray_px lm cx i d)"
    if "0 \<le> ray_px lm cx i d \<and> ray_px lm cx i d < FB_W \<and> 0 \<le> ray_py lm cy i d \<and> ray_py lm cy i d < FB_H"
    using that assms(1)[OF d, of i] by (simp add: in_grid_def)
  show "in_grid (ray_py lm cy i d) (ray_px lm cx i d + 1) \<and> R (ray_py lm cy i d) (ray_px lm cx i d + 1)"
    if "0 \<le> ray_px lm cx i d + 1 \<and> ray_px lm cx i d + 1 < FB_W \<and> 0 \<le> ray_py lm cy i d \<and> ray_py lm cy i d < FB_H"
    using that assms(2)[OF d, of i] by (simp add: in_grid_def)
qed

lemma paints_in_draw_sun_grid: "paints_in (draw_sun lm cx cy r) in_grid"
proof -
  have A: "paints_in (fill_circle cx cy r COL_YELLOW) in_grid"
    by (rule paints_in_weaken [OF paints_in_fill_circle]) (simp add: in_rect_def)
  show ?thesis
    using paints_in_comp [OF A paints_in_rays [of r lm cy cx in_grid]]
    by (simp add: draw_sun_def [abs_def] Let_def)
qed

lemma abs_trunc0_le:
  assumes "\<bar>v\<bar> \<le> of_int n"
  shows "\<bar>trunc0 v\<bar> \<le> n"
proof (cases "0 \<le> v")
  case True
  have "\<lfloor>v\<rfloor> \<le> \<lfloor>of_int n :: rat\<rfloor>" using assms by (intro floor_mono) linarith
  then have "\<lfloor>v\<rfloor> \<le> n" by simp
  moreover have "0 \<le> \<lfloor>v\<rfloor>" using True by simp
  ultimately show ?thesis using True by (simp add: trunc0_def)
next
  case False
  have "\<lfloor>- v\<rfloor> \<le> \<lfloor>of_int n :: rat\<rfloor>" using assms by (intro floor_mono) linarith
  then have "\<lfloor>- v\<rfloor> \<le> n" by simp
  moreover have "0 \<le> \<lfloor>- v\<rfloor>" using False by simp
  ultimately show ?thesis using False by (simp add: trunc0_def)
qed

lemma ray_offset_bound:
  assumes "\<bar>c\<bar> \<le> 1" "0 \<le> d" "d \<le> 2 ^ 24"
  shows "\<bar>trunc0 (fmul c (float_of_int d))\<bar> \<le> d"
proof -
  have fd: "float_of_int d = of_int d" using assms(2,3) by (intro float_of_int_exact) simp
  have "\<bar>c * of_int d\<bar> = \<bar>c\<bar> * of_int d" using assms(2) by (simp add: abs_mult)
  also have "\<dots> \<le> 1 * of_int d" using assms(1,2) by (intro mult_right_mono) simp_all
  finally have "\<bar>c * of_int d\<bar> \<le> of_int d" by simp
  then have "\<bar>f32 (c * of_int d)\<bar> \<le> of_int d" using assms(3) by (rule f32_abs_le)
  then show ?thesis unfolding fmul_def fd by (rule abs_trunc0_le)
qed

lemma ray_in_reach:
  assumes "libm_ok lm" "0 \<le> d" "d \<le> 2 ^ 24"
  shows "\<bar>ray_px lm cx i d - cx\<bar> \<le> d" "\<bar>ray_py lm cy i d - cy\<bar> \<le> d"
  using assms ray_offset_bound[of "cosf lm (ray_angle i)" d] ray_offset_bound[of "sinf lm (ray_angle i)" d]
  by (simp_all add: libm_ok_def ray_px_def ray_py_def)

lemma paints_in_draw_sun:
  assumes "libm_ok lm" "0 \<le> r" "r \<le> 1000000"
  shows "paints_in (draw_sun lm cx cy r) (in_rect (cx - r - 9) (cy - r - 9) (2 * r + 20) (2 * r + 19))"
proof -
  have A: "paints_in (fill_circle cx cy r COL_YELLOW)
             (in_rect (cx - r - 9) (cy - r - 9) (2 * r + 20) (2 * r + 19))"
    using assms(2) by (intro paints_in_weaken [OF paints_in_fill_circle]) (simp add: in_rect_def)
  have B: "in_rect (cx - r - 9) (cy - r - 9) (2 * r + 20) (2 * r + 19)
             (ray_py lm cy i d) (ray_px lm cx i d + k)"
    if "r + 3 \<le> d" "d < r + 10" "in_grid (ray_py lm cy i d) (ray_px lm cx i d + k)" "k = 0 \<or> k = 1"
    for i d k
  proof -
    have dd: "0 \<le> d" "d \<le> 2 ^ 24" using that(1,2) assms(2,3) by simp_all
    note b = ray_in_reach(1)[OF assms(1) dd, of cx i] ray_in_reach(2)[OF assms(1) dd, of cy i]
    show ?thesis using that b by (auto simp add: in_rect_def abs_le_iff)
  qed
  have "paints_in (for_loop 0 8 (\<lambda>i. for_loop (r + 3) (r + 10) (\<lambda>d s.
           if 0 \<le> ray_px lm cx i d + 1 \<and> ray_px lm cx i d + 1 < FB_W \<and>
              0 \<le> ray_py lm cy i d \<and> ray_py lm cy i d < FB_H
           then fb_store (ray_py lm cy i d) (ray_px lm cx i d + 1) COL_ORANGE
                  (if 0 \<le> ray_px lm cx i d \<and> ray_px lm cx i d < FB_W \<and>
                      0 \<le> ray_py lm cy i d \<and> ray_py lm cy i d < FB_H
                   then fb_store (ray_py lm cy i d) (ray_px lm cx i d) COL_ORANGE s else s)
           else (if 0 \<le> ray_px lm cx i d \<and> ray_px lm cx i d < FB_W \<and>
                    0 \<le> ray_py lm cy i d \<and> ray_py lm cy i d < FB_H
                 then fb_store (ray_py lm cy i d) (ray_px lm cx i d) COL_ORANGE s else s))))
          (in_rect (cx - r - 9) (cy - r - 9) (2 * r + 20) (2 * r + 19))"
    using B[where k = 0] B[where k = 1] by (intro paints_in_rays) simp_all
  then show ?thesis
    using paints_in_comp [OF A] by (simp add: draw_sun_def [abs_def] Let_def)
qed

text \<open>
  weatherstar.c's \<open>draw_sun_ws\<close> has the effect of \<open>draw_sun\<close> when every ray pixel lies
  on a row of the framebuffer and not left of column -1, as in the call of
  \<open>compose_display\<close>.
\<close>

lemma draw_sun_ws_eq:
  assumes "libm_ok lm" "0 \<le> r" "r \<le> 1000000"
    and "r + 9 \<le> cy" "cy + r + 9 < FB_H" "r + 8 \<le> cx"
  shows "draw_sun_ws lm cx cy r s = draw_sun lm cx cy r s"
  unfolding draw_sun_ws_def draw_sun_def
proof (intro for_loop_cong_range)
  fix i d :: int and s :: fbstate
  assume d: "r + 3 \<le> d" "d < r + 10"
  have dd: "0 \<le> d" "d \<le> 2 ^ 24" using d assms(2,3) by simp_all
  note b = ray_in_reach(1)[OF assms(1) dd, of cx i] ray_in_reach(2)[OF assms(1) dd, of cy i]
  have "0 \<le> ray_px lm cx i d + 1" "0 \<le> ray_py lm cy i d" "ray_py lm cy i d < FB_H"
    using b d assms(4-6) by (simp_all add: abs_le_iff)
  then show "(let px = ray_px lm cx i d; py = ray_py lm cy i d;
                  s1 = if 0 \<le> px \<and> px < FB_W \<and> 0 \<le> py \<and> py < FB_H
                       then fb_store py px COL_ORANGE s else s
              in if px + 1 < FB_W then fb_store py (px + 1) COL_ORANGE s1 else s1) =
             (let px = ray_px lm cx i d; py = ray_py lm cy i d;
                  s1 = if 0 \<le> px \<and> px < FB_W \<and> 0 \<le> py \<and> py < FB_H
                       then fb_store py px COL_ORANGE s else s
              in if 0 \<le> px + 1 \<and> px + 1 < FB_W \<and> 0 \<le> py \<and> py < FB_H
                 then fb_store py (px + 1) COL_ORANGE s1 else s1)"
    by (simp add: Let_def)
qed

section \<open>Stores outside the grid\<close>

text \<open>Once an access outside the grid has happened, the state keeps it.\<close>

lemma fb_store_Fault [simp]: "fb_store y x c (Fault a b) = Fault a b"
  by (simp add: fb_store_def)

lemma for_loop_Fault:
  assumes "\<And>j. i \<le> j \<Longrightarrow> j < n \<Longrightarrow> body j (Fault a b) = Fault a b"
  shows "for_loop i n body (Fault a b) = Fault a b"
  using assms by (intro for_loop_invariant [where P = "\<lambda>s. s = Fault a b"]) simp_all

lemma ray_angle_0: "ray_angle 0 = 0"
  by (simp add: ray_angle_def fmul_def fdiv_def f32_zero)

lemma ray_first_pixel:
  assumes "cosf lm 0 = 1" "sinf lm 0 = 0"
  shows "ray_px lm cx 0 21 = cx + 21" "ray_py lm cy 0 21 = cy"
proof -
  have "f32 21 = 21" using f32_of_int [of 21] by simp
  then have "fmul 1 (float_of_int 21) = 21" by (simp add: fmul_def)
  moreover have "fmul 0 (float_of_int 21) = 0" by (simp add: fmul_def f32_zero)
  moreover have "trunc0 (21 :: rat) = 21" using trunc0_of_int [of 21] by simp
  ultimately show "ray_px lm cx 0 21 = cx + 21" "ray_py lm cy 0 21 = cy"
    using assms by (simp_all add: ray_px_def ray_py_def ray_angle_0 trunc0_zero)
qed

text \<open>
  Every drawing operation of fb.h and icons.h, and every one of weatherstar.c but its
  \<open>draw_sun\<close>, stores inside the grid only, whatever its arguments.
\<close>

lemma drawing_operations_clip:
  "paints_in (fb_rect x0 y0 w h c) in_grid"
  "paints_in (fb_rect_grad_v x0 y0 w h ctop cbot) in_grid"
  "paints_in (fb_hline x0 x1 y c) in_grid"
  "paints_in (draw_rounded_rect x0 y0 w h r c) in_grid"
  "paints_in (draw_rounded_rect_ws x0 y0 w h r c) in_grid"
  "paints_in (draw_sun lm cx cy r) in_grid"
  "paints_in (draw_cloud cx cy c) in_grid"
  "paints_in (fill_circle cx cy r c) in_grid"
  "paints_in (fb_char px py ch c scale) in_grid"
  "paints_in (fb_degree px py c scale) in_grid"
  "paints_in (fb_string px py cs c scale) in_grid"
  "paints_in (fb_string_centered py cs c scale) in_grid"
proof -
  show "paints_in (fb_rect x0 y0 w h c) in_grid"
    by (rule paints_in_weaken [OF paints_in_fb_rect]) (simp add: in_rect_def)
  show "paints_in (fb_rect_grad_v x0 y0 w h ctop cbot) in_grid"
    by (rule paints_in_weaken [OF paints_in_fb_rect_grad_v]) (simp add: in_rect_def)
  show "paints_in (fb_hline x0 x1 y c) in_grid"
    by (rule paints_in_weaken [OF paints_in_fb_hline]) (simp add: in_rect_def)
  show "paints_in (draw_rounded_rect x0 y0 w h r c) in_grid"
    by (rule paints_in_draw_rounded_rect)
  show "paints_in (draw_rounded_rect_ws x0 y0 w h r c) in_grid"
    by (rule paints_in_draw_rounded_rect_ws)
  show "paints_in (draw_sun lm cx cy r) in_grid"
    by (rule paints_in_draw_sun_grid)
  show "paints_in (draw_cloud cx cy c) in_grid"
    by (rule paints_in_weaken [OF paints_in_draw_cloud]) (simp add: in_rect_def)
  show "paints_in (fill_circle cx cy r c) in_grid"
    by (rule paints_in_weaken [OF paints_in_fill_circle]) (simp add: in_rect_def)
  show "paints_in (fb_char px py ch c scale) in_grid"
    by (rule paints_in_weaken [OF paints_in_fb_char]) (simp add: in_rect_def)
  show "paints_in (fb_degree px py c scale) in_grid"
    by (rule paints_in_weaken [OF paints_in_fb_degree]) (simp add: in_rect_def)
  show "paints_in (fb_string px py cs c scale) in_grid"
    by (rule paints_in_weaken [OF paints_in_fb_string]) simp
  show "paints_in (fb_string_centered py cs c scale) in_grid"
    by (rule paints_in_weaken [OF paints_in_fb_string_centered]) simp
qed

text \<open>
  C1 (safety of the drawing operations): the claim fails for \<open>draw_sun\<close> of weatherstar.c.
  With the sun centred one row above the canvas, \<^verbatim>\<open>draw_sun(90, -1, 18)\<close>, and a libm with
  \<open>cosf 0 = 1\<close> and \<open>sinf 0 = 0\<close>, the first pixel of ray 0 is (111, -1); its first store is
  skipped by the full check, and the second store, guarded by \<^verbatim>\<open>px + 1 < FB_W\<close> alone,
  writes \<^verbatim>\<open>fb[-1][112]\<close>, outside the framebuffer.
\<close>

theorem draw_sun_ws_stores_outside_grid:
  assumes "cosf lm 0 = 1" "sinf lm 0 = 0"
  shows "draw_sun_ws lm 90 (- 1) 18 (Fb f) = Fault (- 1) 112"
proof -
  let ?body = "\<lambda>i d s.
         let px = ray_px lm 90 i d; py = ray_py lm (- 1) i d;
             s1 = (if px \<ge> 0 \<and> px < FB_W \<and> py \<ge> 0 \<and> py < FB_H
                   then fb_store py px COL_ORANGE s else s)
         in if px + 1 < FB_W then fb_store py (px + 1) COL_ORANGE s1 else s1"
  have keep: "?body i d (Fault a b) = Fault a b" for i d a b
    by (simp add: Let_def)
  obtain g where g: "fill_circle 90 (- 1) 18 COL_YELLOW (Fb f) = Fb g"
    using paints_in_fill_circle [of 90 "- 1" 18 COL_YELLOW] by (auto simp add: paints_in_def)
  have first: "?body 0 21 (Fb g) = Fault (- 1) 112"
    using ray_first_pixel(1) [OF assms, of 90] ray_first_pixel(2) [OF assms, of "- 1"]
    by (simp add: Let_def fb_store_def in_grid_def)
  have "for_loop (18 + 3) (18 + 10) (?body 0) (Fb g) =
        for_loop (21 + 1) (18 + 10) (?body 0) (?body 0 21 (Fb g))"
    using for_loop_step [of 21 "18 + 10" "?body 0" "Fb g"] by simp
  also have "\<dots> = Fault (- 1) 112"
    unfolding first by (rule for_loop_Fault) (rule keep)
  finally have ray0: "for_loop (18 + 3) (18 + 10) (?body 0) (Fb g) = Fault (- 1) 112" .
  have "for_loop 0 8 (\<lambda>i. for_loop (18 + 3) (18 + 10) (?body i)) (Fb g) =
        for_loop (0 + 1) 8 (\<lambda>i. for_loop (18 + 3) (18 + 10) (?body i))
          (for_loop (18 + 3) (18 + 10) (?body 0) (Fb g))"
    by (rule for_loop_step) simp
  also have "\<dots> = Fault (- 1) 112"
    unfolding ray0 by (rule for_loop_Fault, rule for_loop_Fault, rule keep)
  finally have "for_loop 0 8 (\<lambda>i. for_loop (18 + 3) (18 + 10) (?body i)) (Fb g) =
        Fault (- 1) 112" .
  then show ?thesis by (simp add: draw_sun_ws_def g)
qed

theorem draw_sun_ws_stores_outside_grid_witness:
  "cosf libm_rays 0 = 1 \<and> sinf libm_rays 0 = 0 \<and>
   draw_sun_ws libm_rays 90 (- 1) 18 fb_init = Fault (- 1) 112 \<and> \<not> in_grid (- 1) 112"
  using draw_sun_ws_stores_outside_grid [of libm_rays "\<lambda>y x. rgb 0 0 0"]
  by (simp add: fb_init_def in_grid_def libm_rays_def ray_table_def)

section \<open>Glyphs and strings as painted regions\<close>

text \<open>The glyphs and the strings as painted regions.\<close>

lemma cell_div:
  fixes d s c :: int
  assumes "0 < s"
  shows "(c * s \<le> d \<and> d < c * s + s) \<longleftrightarrow> d div s = c"
proof
  assume a: "c * s \<le> d \<and> d < c * s + s"
  define r where "r = d - c * s"
  have r: "0 \<le> r" "r < s" "d = r + c * s" using a by (simp_all add: r_def)
  have "d div s = r div s + c" unfolding r(3) using assms by simp
  then show "d div s = c" using r(1,2) by simp
next
  assume c: "d div s = c"
  have "d = (d div s) * s + d mod s" by simp
  moreover have "0 \<le> d mod s" "d mod s < s" using assms by simp_all
  ultimately show "c * s \<le> d \<and> d < c * s + s" unfolding c by linarith
qed

lemma blit_block_paint:
  "blit_block px py row col fg scale (Fb f) =
   Fb (paint (in_rect (px + col * scale) (py + row * scale) scale scale) (\<lambda>_ _. fg) f)"
proof -
  have "blit_block px py row col fg scale (Fb f) =
        Fb (paint (\<lambda>y x. \<exists>sy. 0 \<le> sy \<and> sy < scale \<and> (\<exists>sx. 0 \<le> sx \<and> sx < scale \<and>
              ((px + col * scale + sx \<ge> 0 \<and> px + col * scale + sx < FB_W \<and>
                py + row * scale + sy \<ge> 0 \<and> py + row * scale + sy < FB_H) \<and>
               y = py + row * scale + sy \<and> x = px + col * scale + sx))) (\<lambda>_ _. fg) f)"
    unfolding blit_block_def Let_def
    by (intro for_loop_paint guarded_store_paint) (simp add: in_grid_def)
  also have "paint (\<lambda>y x. \<exists>sy. 0 \<le> sy \<and> sy < scale \<and> (\<exists>sx. 0 \<le> sx \<and> sx < scale \<and>
              ((px + col * scale + sx \<ge> 0 \<and> px + col * scale + sx < FB_W \<and>
                py + row * scale + sy \<ge> 0 \<and> py + row * scale + sy < FB_H) \<and>
               y = py + row * scale + sy \<and> x = px + col * scale + sx))) (\<lambda>_ _. fg) f =
             paint (in_rect (px + col * scale) (py + row * scale) scale scale) (\<lambda>_ _. fg) f"
  proof (rule paint_cong_region, rule iffI)
    fix y x
    assume "in_rect (px + col * scale) (py + row * scale) scale scale y x"
    then have "0 \<le> y - (py + row * scale) \<and> y - (py + row * scale) < scale \<and>
               (0 \<le> x - (px + col * scale) \<and> x - (px + col * scale) < scale \<and>
                ((px + col * scale + (x - (px + col * scale)) \<ge> 0 \<and>
                  px + col * scale + (x - (px + col * scale)) < FB_W \<and>
                  py + row * scale + (y - (py + row * scale)) \<ge> 0 \<and>
                  py + row * scale + (y - (py + row * scale)) < FB_H) \<and>
                 y = py + row * scale + (y - (py + row * scale)) \<and>
                 x = px + col * scale + (x - (px + col * scale))))"
      by (simp add: in_rect_def in_grid_def)
    then show "\<exists>sy. 0 \<le> sy \<and> sy < scale \<and> (\<exists>sx. 0 \<le> sx \<and> sx < scale \<and>
              ((px + col * scale + sx \<ge> 0 \<and> px + col * scale + sx < FB_W \<and>
                py + row * scale + sy \<ge> 0 \<and> py + row * scale + sy < FB_H) \<and>
               y = py + row * scale + sy \<and> x = px + col * scale + sx))"
      by blast
  next
    fix y x
    assume "\<exists>sy. 0 \<le> sy \<and> sy < scale \<and> (\<exists>sx. 0 \<le> sx \<and> sx < scale \<and>
              ((px + col * scale + sx \<ge> 0 \<and> px + col * scale + sx < FB_W \<and>
                py + row * scale + sy \<ge> 0 \<and> py + row * scale + sy < FB_H) \<and>
               y = py + row * scale + sy \<and> x = px + col * scale + sx))"
    then show "in_rect (px + col * scale) (py + row * scale) scale scale y x"
      by (auto simp add: in_rect_def in_grid_def)
  qed
  finally show ?thesis .
qed

lemma glyph_cell:
  "(\<exists>row. 0 \<le> row \<and> row < 7 \<and> (\<exists>col. 0 \<le> col \<and> col < 5 \<and>
      (glyph_bit ch row col \<and> in_rect (px + col * scale) (py + row * scale) scale scale y x))) =
   glyph_region px py ch scale y x"
proof (cases "0 < scale")
  case False
  then show ?thesis by (auto simp add: glyph_region_def in_rect_def)
next
  case s: True
  have cell: "(a + c * scale \<le> v \<and> v < a + c * scale + scale) \<longleftrightarrow> (v - a) div scale = c" for a c v
    using cell_div [OF s, of c "v - a"] by (simp add: algebra_simps)
  show ?thesis
  proof
    assume "\<exists>row. 0 \<le> row \<and> row < 7 \<and> (\<exists>col. 0 \<le> col \<and> col < 5 \<and>
      (glyph_bit ch row col \<and> in_rect (px + col * scale) (py + row * scale) scale scale y x))"
    then obtain row col where rc: "0 \<le> row" "row < 7" "0 \<le> col" "col < 5" "glyph_bit ch row col"
      and box: "in_rect (px + col * scale) (py + row * scale) scale scale y x" by blast
    have "(y - py) div scale = row" "(x - px) div scale = col"
      using box cell [of py row y] cell [of px col x] by (simp_all add: in_rect_def)
    moreover have "in_rect px py (5 * scale) (7 * scale) y x"
      using rc(1-4) box by (rule block_in_box)
    ultimately show "glyph_region px py ch scale y x"
      using rc(5) s by (simp add: glyph_region_def in_rect_def)
  next
    assume g: "glyph_region px py ch scale y x"
    define row col where "row = (y - py) div scale" and "col = (x - px) div scale"
    have bit: "glyph_bit ch row col" using g by (simp add: glyph_region_def row_def col_def)
    have le: "py + row * scale \<le> y" "px + col * scale \<le> x"
      using cell [of py row y] cell [of px col x] by (simp_all add: row_def col_def)
    have "y < py + 7 * scale" "x < px + 5 * scale" using g by (simp_all add: glyph_region_def)
    then have lt: "row * scale < 7 * scale" "col * scale < 5 * scale"
      using le by linarith+
    have "0 \<le> row" "0 \<le> col"
      using g s by (simp_all add: glyph_region_def row_def col_def pos_imp_zdiv_nonneg_iff)
    moreover have "row < 7" "col < 5"
      using s lt mult_right_less_imp_less [of row scale 7] mult_right_less_imp_less [of col scale 5]
      by simp_all
    moreover have "in_rect (px + col * scale) (py + row * scale) scale scale y x"
      using g cell [of py row y] cell [of px col x]
      by (simp add: glyph_region_def in_rect_def row_def col_def)
    ultimately show "\<exists>row. 0 \<le> row \<and> row < 7 \<and> (\<exists>col. 0 \<le> col \<and> col < 5 \<and>
      (glyph_bit ch row col \<and> in_rect (px + col * scale) (py + row * scale) scale scale y x))"
      using bit by blast
  qed
qed

lemma fb_char_paint:
  "fb_char px py ch fg scale (Fb f) = Fb (paint (glyph_region px py ch scale) (\<lambda>_ _. fg) f)"
proof -
  have cell: "(if glyph_bit ch row col then blit_block px py row col fg scale (Fb f) else Fb f) =
              Fb (paint (\<lambda>y x. glyph_bit ch row col \<and>
                    in_rect (px + col * scale) (py + row * scale) scale scale y x) (\<lambda>_ _. fg) f)"
    for row col f
    by (cases "glyph_bit ch row col") (simp_all add: blit_block_paint paint_none)
  have "fb_char px py ch fg scale (Fb f) =
        Fb (paint (\<lambda>y x. \<exists>row. 0 \<le> row \<and> row < 7 \<and> (\<exists>col. 0 \<le> col \<and> col < 5 \<and>
              (glyph_bit ch row col \<and>
               in_rect (px + col * scale) (py + row * scale) scale scale y x))) (\<lambda>_ _. fg) f)"
    unfolding fb_char_def by (intro for_loop_paint cell)
  then show ?thesis by (simp only: glyph_cell)
qed

lemma fb_string_loop_paint:
  "snd (fb_string_loop px py s fg scale (Fb f)) =
   Fb (paint (string_region px py s scale) (\<lambda>_ _. fg) f)"
proof (induction s arbitrary: px f)
  case Nil
  have "string_region px py [] scale = (\<lambda>y x. False)" by (simp add: fun_eq_iff)
  then show ?case by (simp add: paint_none)
next
  case (Cons ch s)
  show ?case
  proof (cases "ch = CHR 0x00")
    case True
    then have "string_region px py (ch # s) scale = (\<lambda>y x. False)" by (simp add: fun_eq_iff)
    then show ?thesis using True by (simp add: paint_none)
  next
    case False
    then have "string_region px py (ch # s) scale =
               (\<lambda>y x. glyph_region px py ch scale y x \<or> string_region (px + 6 * scale) py s scale y x)"
      by (simp add: fun_eq_iff)
    then show ?thesis using False by (simp add: fb_char_paint Cons paint_paint)
  qed
qed

lemma fb_string_paint:
  "fb_string px py s fg scale (Fb f) = Fb (paint (string_region px py s scale) (\<lambda>_ _. fg) f)"
  by (simp add: fb_string_def fb_string_loop_paint)

section \<open>The scene\<close>

lemma libm_ok_libm_rays: "libm_ok libm_rays"
  by (simp add: libm_ok_def libm_rays_def ray_table_def)

lemma libm_rays_0: "cosf libm_rays 0 = 1" "sinf libm_rays 0 = 0"
  by (simp_all add: libm_rays_def ray_table_def)

text \<open>Statements in sequence.\<close>

lemma seq_Nil [simp]: "seq [] s = s"
  by (simp add: seq_def)

lemma seq_Cons [simp]: "seq (op # ops) s = seq ops (op s)"
  by (simp add: seq_def)

lemma seq_append: "seq (ops1 @ ops2) s = seq ops2 (seq ops1 s)"
  by (simp add: seq_def)

lemma paints_in_seq_Nil: "paints_in (seq []) R"
  by (rule paints_in_seq) simp

lemma paints_in_seq_Cons:
  "paints_in op R \<Longrightarrow> paints_in (seq ops) R \<Longrightarrow> paints_in (seq (op # ops)) R"
proof -
  assume "paints_in op R" "paints_in (seq ops) R"
  then have "paints_in (\<lambda>s. seq ops (op s)) R" by (rule paints_in_comp)
  moreover have "seq (op # ops) = (\<lambda>s. seq ops (op s))" by (simp add: fun_eq_iff)
  ultimately show ?thesis by simp
qed

text \<open>The rows that the drawing operations paint in.\<close>

lemma rows_fb_rect:
  "(\<And>y x. in_grid y x \<Longrightarrow> y0 \<le> y \<Longrightarrow> y < y0 + h \<Longrightarrow> R y x) \<Longrightarrow> paints_in (fb_rect x0 y0 w h c) R"
  by (rule paints_in_weaken [OF paints_in_fb_rect]) (simp add: in_rect_def)

lemma rows_fb_rect_grad_v:
  "(\<And>y x. in_grid y x \<Longrightarrow> y0 \<le> y \<Longrightarrow> y < y0 + h \<Longrightarrow> R y x) \<Longrightarrow>
   paints_in (fb_rect_grad_v x0 y0 w h ctop cbot) R"
  by (rule paints_in_weaken [OF paints_in_fb_rect_grad_v]) (simp add: in_rect_def)

lemma rows_fb_hline:
  "(\<And>x. in_grid y x \<Longrightarrow> R y x) \<Longrightarrow> paints_in (fb_hline x0 x1 y c) R"
proof (rule paints_in_weaken [OF paints_in_fb_hline])
  fix y' x
  assume a: "\<And>x. in_grid y x \<Longrightarrow> R y x" and b: "in_rect x0 y (x1 - x0 + 1) 1 y' x"
  from b have "y' = y" by (simp add: in_rect_def)
  moreover from b have "in_grid y' x" by (simp add: in_rect_def)
  ultimately show "R y' x" using a by simp
qed

lemma rows_fb_string:
  "(\<And>y x. in_grid y x \<Longrightarrow> py \<le> y \<Longrightarrow> y < py + 7 * scale \<Longrightarrow> R y x) \<Longrightarrow>
   paints_in (fb_string px py s fg scale) R"
  by (rule paints_in_weaken [OF paints_in_fb_string]) simp

lemma rows_fb_string_centered:
  "(\<And>y x. in_grid y x \<Longrightarrow> py \<le> y \<Longrightarrow> y < py + 7 * scale \<Longrightarrow> R y x) \<Longrightarrow>
   paints_in (fb_string_centered py s fg scale) R"
  by (rule paints_in_weaken [OF paints_in_fb_string_centered]) simp

lemma rows_fb_degree:
  "(\<And>y x. in_grid y x \<Longrightarrow> py \<le> y \<Longrightarrow> y < py + 3 * scale \<Longrightarrow> R y x) \<Longrightarrow>
   paints_in (fb_degree px py fg scale) R"
  by (rule paints_in_weaken [OF paints_in_fb_degree]) (simp add: in_rect_def)

lemma rows_draw_cloud:
  "(\<And>y x. in_grid y x \<Longrightarrow> cy - 12 \<le> y \<Longrightarrow> y < cy + 15 \<Longrightarrow> R y x) \<Longrightarrow>
   paints_in (draw_cloud cx cy c) R"
  by (rule paints_in_weaken [OF paints_in_draw_cloud]) (simp add: in_rect_def)

lemma rows_fill_circle:
  "(\<And>y x. in_grid y x \<Longrightarrow> cy - r \<le> y \<Longrightarrow> y \<le> cy + r \<Longrightarrow> R y x) \<Longrightarrow>
   paints_in (fill_circle cx cy r c) R"
  by (rule paints_in_weaken [OF paints_in_fill_circle]) (simp add: in_rect_def)

lemma rows_forecast_box:
  assumes "\<And>y x. in_grid y x \<Longrightarrow> 278 \<le> y \<Longrightarrow> R y x"
  shows "paints_in (forecast_box i) R"
  unfolding forecast_box_def Let_def
  by (intro paints_in_seq_Cons paints_in_seq_Nil rows_fb_rect rows_fb_hline rows_fb_string
        rows_fill_circle assms) simp_all

text \<open>The scene: all that \<open>compose_with\<close> draws after the header lies below row 9.\<close>

lemma rows_draw_sun:
  assumes "libm_ok lm" "\<And>y x. in_grid y x \<Longrightarrow> cy - r - 9 \<le> y \<Longrightarrow> R y x" "0 \<le> r" "r \<le> 1000000"
  shows "paints_in (draw_sun lm cx cy r) R"
  by (rule paints_in_weaken [OF paints_in_draw_sun [OF assms(1,3,4)]]) (simp add: in_rect_def assms(2))


lemma length_compose_steps: "length (compose_steps clear rrect sun tb db) = 43"
  by (simp add: compose_steps_def Let_def)

lemma compose_steps_header:
  "compose_steps clear rrect sun tb db =
     clear # fb_rect 0 0 FB_W 4 COL_GOLD # fb_rect_grad_v 0 4 FB_W 36 COL_HEADER (rgb 30 55 140) #
     drop 3 (compose_steps clear rrect sun tb db)"
  by (simp add: compose_steps_def Let_def)

lemma paints_in_compose_tail:
  assumes R: "\<And>y x. in_grid y x \<Longrightarrow> 10 \<le> y \<Longrightarrow> R y x"
    and rrect: "paints_in (rrect 20 104 (FB_W - 40) 140 6 (rgb 15 25 90)) R"
    and sun: "paints_in (sun 90 (104 + 55) 18) R"
  shows "list_all (\<lambda>op. paints_in op R) (drop 3 (compose_steps clear rrect sun tb db))"
  unfolding compose_steps_def Let_def drop_Suc_Cons numeral_3_eq_3 drop_0 list.pred_inject
  by (intro conjI TrueI paints_in_for_loop rows_fb_rect rows_fb_hline
        rows_fb_string rows_fb_string_centered rows_fb_rect_grad_v rows_fb_degree rows_draw_cloud
        rows_forecast_box rrect sun R) simp_all

lemma paints_in_compose_steps:
  assumes clear: "paints_in clear in_grid"
    and rrect: "paints_in (rrect 20 104 (FB_W - 40) 140 6 (rgb 15 25 90)) in_grid"
    and sun: "paints_in (sun 90 (104 + 55) 18) in_grid"
  shows "list_all (\<lambda>op. paints_in op in_grid) (compose_steps clear rrect sun tb db)"
proof -
  have "list_all (\<lambda>op. paints_in op in_grid) (drop 3 (compose_steps clear rrect sun tb db))"
    using rrect sun by (intro paints_in_compose_tail) simp_all
  moreover have "paints_in (fb_rect 0 0 FB_W 4 COL_GOLD) in_grid"
    "paints_in (fb_rect_grad_v 0 4 FB_W 36 COL_HEADER (rgb 30 55 140)) in_grid"
    by (intro rows_fb_rect rows_fb_rect_grad_v; simp)+
  ultimately show ?thesis
    using clear by (subst compose_steps_header) simp
qed

lemma paints_in_seq_list_all: "list_all (\<lambda>op. paints_in op R) ops \<Longrightarrow> paints_in (seq ops) R"
  by (rule paints_in_seq) (simp add: list_all_iff)

lemma list_all_take: "list_all P xs \<Longrightarrow> list_all P (take k xs)"
  by (auto simp add: list_all_iff dest: in_set_takeD)

text \<open>
  The pixel (x, y) after a sequence of statements, from the last statement that paints it:
  statement \<open>k\<close> paints it, and the statements after \<open>k\<close> paint in \<open>R\<close>, which leaves it out.
\<close>

lemma pix_seq_nth:
  assumes k: "k < length ops"
    and pre: "list_all (\<lambda>op. paints_in op in_grid) ops"
    and op: "\<And>f. (ops ! k) (Fb f) = Fb (paint A col f)"
    and A: "A y x" "in_grid y x"
    and post: "list_all (\<lambda>op. paints_in op R) (drop (Suc k) ops)" "\<not> R y x"
  shows "pix (seq ops (Fb f)) x y = Some (col y x)"
proof -
  have ops: "ops = take k ops @ ops ! k # drop (Suc k) ops"
    using k by (simp add: id_take_nth_drop)
  have "paints_in (seq (take k ops)) in_grid"
    by (intro paints_in_seq_list_all list_all_take pre)
  then obtain g where g: "seq (take k ops) (Fb f) = Fb g"
    unfolding paints_in_def by blast
  have 2: "paints_in (seq (drop (Suc k) ops)) R"
    by (intro paints_in_seq_list_all post)
  have "seq ops (Fb f) = seq (drop (Suc k) ops) ((ops ! k) (seq (take k ops) (Fb f)))"
    by (subst ops) (simp add: seq_append)
  also have "\<dots> = seq (drop (Suc k) ops) (Fb (paint A col g))"
    by (simp add: g op)
  finally have "pix (seq ops (Fb f)) x y = pix (Fb (paint A col g)) x y"
    using paints_in_frame [OF 2 post(2)] by simp
  then show ?thesis using A by (simp add: pix_def paint_def)
qed

text \<open>The scene of display.h and of weatherstar.c.\<close>

lemma display_steps:
  "list_all (\<lambda>op. paints_in op in_grid)
     (compose_steps fb_clear draw_rounded_rect (draw_sun lm) tb db)"
  by (intro paints_in_compose_steps paints_in_fb_clear paints_in_draw_rounded_rect
        paints_in_draw_sun_grid)

lemma draw_sun_ws_scene:
  assumes "libm_ok lm"
  shows "draw_sun_ws lm 90 159 18 = draw_sun lm 90 159 18"
  using draw_sun_ws_eq [OF assms, of 18 159 90] by (simp add: fun_eq_iff)

lemma weatherstar_steps:
  assumes "libm_ok lm"
  shows "list_all (\<lambda>op. paints_in op in_grid)
     (compose_steps fb_clear_ws draw_rounded_rect_ws (draw_sun_ws lm) tb db)"
  by (intro paints_in_compose_steps paints_in_fb_clear_ws paints_in_draw_rounded_rect_ws)
     (simp_all add: draw_sun_ws_scene [OF assms] paints_in_draw_sun_grid)

section \<open>The composer and the clock\<close>

lemma glyph_bit_8: "glyph_bit CHR ''8'' 0 1"
  by code_simp

lemma glyph_bit_1: "\<not> glyph_bit CHR ''1'' 0 1"
  by code_simp

lemma seq_clear_determined:
  assumes clear: "\<And>f. clear (Fb f) = Fb (paint in_grid bg f)"
    and ops: "list_all (\<lambda>op. paints_in op in_grid) ops"
  shows "\<not> faulted (seq (clear # ops) (Fb f1)) \<and>
         pix (seq (clear # ops) (Fb f1)) = pix (seq (clear # ops) (Fb f2))"
proof -
  have "paints_in (seq ops) in_grid" using ops by (rule paints_in_seq_list_all)
  then obtain A col where 1: "\<And>f. seq ops (Fb f) = Fb (paint A col f)" "\<And>y x. A y x \<Longrightarrow> in_grid y x"
    unfolding paints_in_def by blast
  have "pix (Fb (paint A col (paint in_grid bg f1))) x y =
        pix (Fb (paint A col (paint in_grid bg f2))) x y" for x y
    by (simp add: pix_def paint_def)
  then show ?thesis by (simp add: clear 1 faulted_def fun_eq_iff)
qed

lemma compose_with_determined:
  assumes clear: "\<And>f. clear (Fb f) = Fb (paint in_grid bg f)"
    and ops: "list_all (\<lambda>op. paints_in op in_grid) (compose_steps clear rrect sun tb db)"
  shows "\<not> faulted (compose_with clear rrect sun tb db (Fb f1)) \<and>
         pix (compose_with clear rrect sun tb db (Fb f1)) =
         pix (compose_with clear rrect sun tb db (Fb f2))"
proof -
  obtain rest where r: "compose_steps clear rrect sun tb db = clear # rest"
    using compose_steps_header by blast
  then have "list_all (\<lambda>op. paints_in op in_grid) rest" using ops by simp
  then show ?thesis
    unfolding compose_with_def r by (rule seq_clear_determined [OF clear])
qed


text \<open>The pixel (538, 376) of the status bar lies in the top row of the first glyph of a
  seven-character time string: it is set for \<open>8\<close> and left as the bar is for \<open>1\<close>.\<close>

lemma step_41:
  "compose_steps clear rrect sun tb db ! 41 =
   fb_string (FB_W - fb_string_width (timestr tb) 2 - 20) (FB_H - 30 + 6) (timestr tb) COL_WHITE 2"
  by (simp add: compose_steps_def Let_def)

lemma steps_after_41:
  "drop (Suc 41) (compose_steps clear rrect sun tb db) =
   [fb_string_centered (FB_H - 30 + 10) ''Local on the 8s'' COL_GOLD 1]"
  by (simp add: compose_steps_def Let_def)

lemma step_37:
  "compose_steps clear rrect sun tb db ! 37 = fb_rect 0 (FB_H - 30) FB_W 30 (rgb 10 15 55)"
  by (simp add: compose_steps_def Let_def)

lemma steps_after_37:
  "drop (Suc 37) (compose_steps clear rrect sun tb db) =
   [fb_hline 0 (FB_W - 1) (FB_H - 30) COL_GOLD,
    fb_hline 0 (FB_W - 1) (FB_H - 30 + 1) COL_GOLD,
    fb_string 20 (FB_H - 30 + 10) db COL_LTGRAY 1,
    fb_string (FB_W - fb_string_width (timestr tb) 2 - 20) (FB_H - 30 + 6) (timestr tb) COL_WHITE 2,
    fb_string_centered (FB_H - 30 + 10) ''Local on the 8s'' COL_GOLD 1]"
  by (simp add: compose_steps_def Let_def)

lemma time_0830: "timestr ''08:30 PM'' = ''8:30 PM''" "fb_string_width ''8:30 PM'' 2 = 84"
  by (simp_all add: timestr_def fb_string_width_def int32_def)

lemma time_0130: "timestr ''01:30 PM'' = ''1:30 PM''" "fb_string_width ''1:30 PM'' 2 = 84"
  by (simp_all add: timestr_def fb_string_width_def int32_def)

lemma time_pixel_8:
  "pix (compose_display lm ''08:30 PM'' db (Fb f)) 538 376 = Some COL_WHITE"
  unfolding compose_display_def compose_with_def
proof (rule pix_seq_nth [where k = 41 and col = "\<lambda>_ _. COL_WHITE"
      and A = "string_region 536 376 ''8:30 PM'' 2" and R = "\<lambda>y x. in_grid y x \<and> 380 \<le> y"])
  show "41 < length (compose_steps fb_clear draw_rounded_rect (draw_sun lm) ''08:30 PM'' db)"
    by (simp add: length_compose_steps)
  show "list_all (\<lambda>op. paints_in op in_grid)
          (compose_steps fb_clear draw_rounded_rect (draw_sun lm) ''08:30 PM'' db)"
    by (rule display_steps)
  show "(compose_steps fb_clear draw_rounded_rect (draw_sun lm) ''08:30 PM'' db ! 41) (Fb f) =
        Fb (paint (string_region 536 376 ''8:30 PM'' 2) (\<lambda>_ _. COL_WHITE) f)" for f
    by (simp add: step_41 time_0830 fb_string_paint)
  show "string_region 536 376 ''8:30 PM'' 2 376 538"
    by (simp add: glyph_region_def in_grid_def glyph_bit_8)
  show "in_grid 376 538" by (simp add: in_grid_def)
  show "list_all (\<lambda>op. paints_in op (\<lambda>y x. in_grid y x \<and> 380 \<le> y))
          (drop (Suc 41) (compose_steps fb_clear draw_rounded_rect (draw_sun lm) ''08:30 PM'' db))"
    unfolding steps_after_41 list.pred_inject
    by (intro conjI TrueI rows_fb_string_centered) simp_all
  show "\<not> (in_grid 376 538 \<and> (380 :: int) \<le> 376)" by simp
qed

lemma time_pixel_1:
  "pix (compose_display lm ''01:30 PM'' db (Fb f)) 538 376 = Some (rgb 10 15 55)"
  unfolding compose_display_def compose_with_def
proof (rule pix_seq_nth [where k = 37 and col = "\<lambda>_ _. rgb 10 15 55"
      and A = "in_rect 0 370 FB_W 30"
      and R = "\<lambda>y x. in_grid y x \<and> (y < 372 \<or> 380 \<le> y \<or> string_region 536 376 ''1:30 PM'' 2 y x)"])
  show "37 < length (compose_steps fb_clear draw_rounded_rect (draw_sun lm) ''01:30 PM'' db)"
    by (simp add: length_compose_steps)
  show "list_all (\<lambda>op. paints_in op in_grid)
          (compose_steps fb_clear draw_rounded_rect (draw_sun lm) ''01:30 PM'' db)"
    by (rule display_steps)
  show "(compose_steps fb_clear draw_rounded_rect (draw_sun lm) ''01:30 PM'' db ! 37) (Fb f) =
        Fb (paint (in_rect 0 370 FB_W 30) (\<lambda>_ _. rgb 10 15 55) f)" for f
    by (simp add: step_37 fb_rect_paint)
  show "in_rect 0 370 FB_W 30 376 538" by (simp add: in_rect_def in_grid_def)
  show "in_grid 376 538" by (simp add: in_grid_def)
  have time: "paints_in (fb_string 536 376 ''1:30 PM'' COL_WHITE 2)
     (\<lambda>y x. in_grid y x \<and> (y < 372 \<or> 380 \<le> y \<or> string_region 536 376 ''1:30 PM'' 2 y x))"
  proof (rule paints_inI [OF fb_string_paint])
    fix y x
    assume a: "string_region 536 376 ''1:30 PM'' 2 y x"
    then have "in_grid y x" by (auto simp add: glyph_region_def)
    then show "in_grid y x \<and> (y < 372 \<or> 380 \<le> y \<or> string_region 536 376 ''1:30 PM'' 2 y x)"
      using a by simp
  qed
  show "list_all (\<lambda>op. paints_in op
           (\<lambda>y x. in_grid y x \<and> (y < 372 \<or> 380 \<le> y \<or> string_region 536 376 ''1:30 PM'' 2 y x)))
          (drop (Suc 37) (compose_steps fb_clear draw_rounded_rect (draw_sun lm) ''01:30 PM'' db))"
    unfolding steps_after_37 list.pred_inject time_0130
  proof (intro conjI TrueI)
    show "paints_in (fb_string (FB_W - 84 - 20) (FB_H - 30 + 6) ''1:30 PM'' COL_WHITE 2)
           (\<lambda>y x. in_grid y x \<and> (y < 372 \<or> 380 \<le> y \<or> string_region 536 376 ''1:30 PM'' 2 y x))"
      using time by simp
    show "list_all (\<lambda>op. paints_in op
           (\<lambda>y x. in_grid y x \<and> (y < 372 \<or> 380 \<le> y \<or> string_region 536 376 ''1:30 PM'' 2 y x))) []"
      by simp
  qed (intro rows_fb_string_centered rows_fb_hline rows_fb_string; simp)+
  show "\<not> (in_grid 376 538 \<and>
           ((376 :: int) < 372 \<or> (380 :: int) \<le> 376 \<or> string_region 536 376 ''1:30 PM'' 2 376 538))"
    by (simp add: glyph_region_def glyph_bit_1)
qed


text \<open>
  C2 (as stated). The claim says that the composer consumes its time and date strings as
  input supplied from outside, so that the canvas is a function of the supplied data.
  \<^verbatim>\<open>compose_display(void)\<close> is supplied nothing: it reads the clock itself
  (\<^verbatim>\<open>time\<close>, \<^verbatim>\<open>localtime\<close>, \<^verbatim>\<open>strftime\<close>), and two calls, one at 8:30 PM and one at
  1:30 PM of the same day, leave canvases that differ at pixel (538, 376).
\<close>

theorem compose_display_canvas_depends_on_clock:
  "pix (compose_display libm_rays ''08:30 PM'' ''Saturday  Jan 01, 2000'' fb_init) 538 376 =
     Some COL_WHITE \<and>
   pix (compose_display libm_rays ''01:30 PM'' ''Saturday  Jan 01, 2000'' fb_init) 538 376 =
     Some (rgb 10 15 55) \<and>
   pix (compose_display libm_rays ''08:30 PM'' ''Saturday  Jan 01, 2000'' fb_init) \<noteq>
   pix (compose_display libm_rays ''01:30 PM'' ''Saturday  Jan 01, 2000'' fb_init)"
proof -
  have 1: "pix (compose_display libm_rays ''08:30 PM'' ''Saturday  Jan 01, 2000'' fb_init) 538 376 =
           Some COL_WHITE"
    unfolding fb_init_def by (rule time_pixel_8)
  have 2: "pix (compose_display libm_rays ''01:30 PM'' ''Saturday  Jan 01, 2000'' fb_init) 538 376 =
           Some (rgb 10 15 55)"
    unfolding fb_init_def by (rule time_pixel_1)
  have "COL_WHITE \<noteq> rgb 10 15 55" by (simp add: COL_WHITE_def rgb_def)
  then have "pix (compose_display libm_rays ''08:30 PM'' ''Saturday  Jan 01, 2000'' fb_init) 538 376 \<noteq>
             pix (compose_display libm_rays ''01:30 PM'' ''Saturday  Jan 01, 2000'' fb_init) 538 376"
    unfolding 1 2 by simp
  then have "pix (compose_display libm_rays ''08:30 PM'' ''Saturday  Jan 01, 2000'' fb_init) \<noteq>
             pix (compose_display libm_rays ''01:30 PM'' ''Saturday  Jan 01, 2000'' fb_init)"
    by metis
  then show ?thesis using 1 2 by simp
qed

text \<open>
  C2 (amended). The composer reads the clock itself and does no other input or output.
  It never faults, and the canvas it leaves is determined, pixel for pixel, by the two
  strings that \<^verbatim>\<open>strftime\<close> produced, whatever the framebuffer held before the call: two
  calls that read the same time and date strings leave the same canvas. This holds for
  display.h with any libm, and for weatherstar.c with a libm whose cosines and sines lie in
  \<open>[-1, 1]\<close>.
\<close>

theorem compose_display_determined_by_clock_strings:
  "(\<not> faulted (compose_display lm timebuf datebuf (Fb f1)) \<and>
    pix (compose_display lm timebuf datebuf (Fb f1)) =
    pix (compose_display lm timebuf datebuf (Fb f2))) \<and>
   (libm_ok lm \<longrightarrow>
    \<not> faulted (compose_display_ws lm timebuf datebuf (Fb f1)) \<and>
    pix (compose_display_ws lm timebuf datebuf (Fb f1)) =
    pix (compose_display_ws lm timebuf datebuf (Fb f2)))"
proof (intro conjI impI)
  have 1: "\<not> faulted (compose_display lm timebuf datebuf (Fb f1)) \<and>
    pix (compose_display lm timebuf datebuf (Fb f1)) =
    pix (compose_display lm timebuf datebuf (Fb f2))"
    unfolding compose_display_def
    by (rule compose_with_determined [OF fb_clear_paint display_steps])
  show "\<not> faulted (compose_display lm timebuf datebuf (Fb f1))" using 1 by simp
  show "pix (compose_display lm timebuf datebuf (Fb f1)) =
        pix (compose_display lm timebuf datebuf (Fb f2))" using 1 by simp
next
  assume ok: "libm_ok lm"
  have 2: "\<not> faulted (compose_display_ws lm timebuf datebuf (Fb f1)) \<and>
    pix (compose_display_ws lm timebuf datebuf (Fb f1)) =
    pix (compose_display_ws lm timebuf datebuf (Fb f2))"
    unfolding compose_display_ws_def
    by (rule compose_with_determined [OF fb_clear_ws_paint weatherstar_steps [OF ok]])
  show "\<not> faulted (compose_display_ws lm timebuf datebuf (Fb f1))" using 2 by simp
  show "pix (compose_display_ws lm timebuf datebuf (Fb f1)) =
        pix (compose_display_ws lm timebuf datebuf (Fb f2))" using 2 by simp
qed

theorem compose_display_determined_by_clock_strings_witness:
  "libm_ok libm_rays \<and>
   \<not> faulted (compose_display_ws libm_rays ''08:30 PM'' ''Saturday  Jan 01, 2000'' fb_init) \<and>
   pix (compose_display_ws libm_rays ''08:30 PM'' ''Saturday  Jan 01, 2000'' fb_init) =
   pix (compose_display_ws libm_rays ''08:30 PM'' ''Saturday  Jan 01, 2000'' (Fb (\<lambda>y x. COL_WHITE)))"
  using compose_display_determined_by_clock_strings
          [of libm_rays "''08:30 PM''" "''Saturday  Jan 01, 2000''" "\<lambda>y x. rgb 0 0 0" "\<lambda>y x. COL_WHITE"]
        libm_ok_libm_rays
  by (simp add: fb_init_def)

section \<open>The header of the scene\<close>

text \<open>The header: the gold bar on rows 0 to 3, the gradient from row 4.\<close>

lemma header_t_row5: "grad_t 5 4 36 = 15339169 / 536870912"
  by code_simp

lemma header_row5_r: "lerp_u8 40 30 (15339169 / 536870912) = 39"
proof -
  have x: "fmul (float_of_int (uint (30::8 word) - uint (40::8 word))) (15339169 / 536870912) = - (9586981 / 33554432)"
    by code_simp
  have v: "fadd (float_of_int (uint (40::8 word))) (- (9586981 / 33554432)) = 5205431 / 131072"
    by code_simp
  have r: "u8_of_float (5205431 / 131072) = 39"
    by code_simp
  show ?thesis by (simp only: lerp_u8_def x v r)
qed

lemma header_row5_g: "lerp_u8 70 55 (15339169 / 536870912) = 69"
proof -
  have x: "fmul (float_of_int (uint (55::8 word) - uint (70::8 word))) (15339169 / 536870912) = - (14380471 / 33554432)"
    by code_simp
  have v: "fadd (float_of_int (uint (70::8 word))) (- (14380471 / 33554432)) = 4559433 / 65536"
    by code_simp
  have r: "u8_of_float (4559433 / 65536) = 69"
    by code_simp
  show ?thesis by (simp only: lerp_u8_def x v r)
qed

lemma header_row5_b: "lerp_u8 170 140 (15339169 / 536870912) = 169"
proof -
  have x: "fmul (float_of_int (uint (140::8 word) - uint (170::8 word))) (15339169 / 536870912) = - (14380471 / 16777216)"
    by code_simp
  have v: "fadd (float_of_int (uint (170::8 word))) (- (14380471 / 16777216)) = 5542473 / 32768"
    by code_simp
  have r: "u8_of_float (5542473 / 32768) = 169"
    by code_simp
  show ?thesis by (simp only: lerp_u8_def x v r)
qed

lemma header_row5: "grad_color COL_HEADER (rgb 30 55 140) (grad_t 5 4 36) = rgb 39 69 169"
  unfolding header_t_row5
  by (simp add: grad_color_def COL_HEADER_def rgb_def header_row5_r header_row5_g header_row5_b)

lemma list_all_paints_in_weaken:
  "list_all (\<lambda>op. paints_in op R) ops \<Longrightarrow> (\<And>y x. R y x \<Longrightarrow> R' y x) \<Longrightarrow>
   list_all (\<lambda>op. paints_in op R') ops"
  by (auto simp add: list_all_iff intro: paints_in_weaken)

lemma steps_after_1:
  "drop (Suc 1) (compose_steps clear rrect sun tb db) =
   fb_rect_grad_v 0 4 FB_W 36 COL_HEADER (rgb 30 55 140) # drop 3 (compose_steps clear rrect sun tb db)"
  by (simp add: compose_steps_def Let_def)

lemma steps_after_2:
  "drop (Suc 2) (compose_steps clear rrect sun tb db) = drop 3 (compose_steps clear rrect sun tb db)"
  by (simp add: numeral_3_eq_3)

lemma gold_bar_pixel:
  assumes steps: "list_all (\<lambda>op. paints_in op in_grid) (compose_steps clear rrect sun tb db)"
    and tail: "list_all (\<lambda>op. paints_in op (\<lambda>y x. in_grid y x \<and> 10 \<le> y))
                 (drop 3 (compose_steps clear rrect sun tb db))"
    and xy: "0 \<le> x" "x < FB_W" "0 \<le> y" "y < 4"
  shows "pix (compose_with clear rrect sun tb db (Fb f)) x y = Some COL_GOLD"
  unfolding compose_with_def
proof (rule pix_seq_nth [where k = 1 and col = "\<lambda>_ _. COL_GOLD" and A = "in_rect 0 0 FB_W 4"
      and R = "\<lambda>y x. in_grid y x \<and> 4 \<le> y"])
  show "1 < length (compose_steps clear rrect sun tb db)" by (simp add: length_compose_steps)
  show "list_all (\<lambda>op. paints_in op in_grid) (compose_steps clear rrect sun tb db)" by (rule steps)
  show "(compose_steps clear rrect sun tb db ! 1) (Fb f) =
        Fb (paint (in_rect 0 0 FB_W 4) (\<lambda>_ _. COL_GOLD) f)" for f
    by (simp add: compose_steps_def Let_def fb_rect_paint)
  show "in_rect 0 0 FB_W 4 y x" "in_grid y x" using xy by (simp_all add: in_rect_def in_grid_def)
  have "paints_in (fb_rect_grad_v 0 4 FB_W 36 COL_HEADER (rgb 30 55 140)) (\<lambda>y x. in_grid y x \<and> 4 \<le> y)"
    by (rule rows_fb_rect_grad_v) simp
  moreover have "list_all (\<lambda>op. paints_in op (\<lambda>y x. in_grid y x \<and> 4 \<le> y))
                   (drop 3 (compose_steps clear rrect sun tb db))"
    by (rule list_all_paints_in_weaken [OF tail]) simp
  ultimately show "list_all (\<lambda>op. paints_in op (\<lambda>y x. in_grid y x \<and> 4 \<le> y))
          (drop (Suc 1) (compose_steps clear rrect sun tb db))"
    unfolding steps_after_1 by simp
  show "\<not> (in_grid y x \<and> 4 \<le> y)" using xy by simp
qed

lemma header_gradient_pixel:
  assumes steps: "list_all (\<lambda>op. paints_in op in_grid) (compose_steps clear rrect sun tb db)"
    and tail: "list_all (\<lambda>op. paints_in op (\<lambda>y x. in_grid y x \<and> 10 \<le> y))
                 (drop 3 (compose_steps clear rrect sun tb db))"
    and xy: "0 \<le> x" "x < FB_W" "4 \<le> y" "y < 10"
  shows "pix (compose_with clear rrect sun tb db (Fb f)) x y =
         Some (grad_color COL_HEADER (rgb 30 55 140) (grad_t y 4 36))"
  unfolding compose_with_def
proof (rule pix_seq_nth [where k = 2
      and col = "\<lambda>y x. grad_color COL_HEADER (rgb 30 55 140) (grad_t y 4 36)"
      and A = "in_rect 0 4 FB_W 36" and R = "\<lambda>y x. in_grid y x \<and> 10 \<le> y"])
  show "2 < length (compose_steps clear rrect sun tb db)" by (simp add: length_compose_steps)
  show "list_all (\<lambda>op. paints_in op in_grid) (compose_steps clear rrect sun tb db)" by (rule steps)
  show "(compose_steps clear rrect sun tb db ! 2) (Fb f) =
        Fb (paint (in_rect 0 4 FB_W 36)
              (\<lambda>y x. grad_color COL_HEADER (rgb 30 55 140) (grad_t y 4 36)) f)" for f
    by (simp add: compose_steps_def Let_def fb_rect_grad_v_paint)
  show "in_rect 0 4 FB_W 36 y x" "in_grid y x" using xy by (simp_all add: in_rect_def in_grid_def)
  show "list_all (\<lambda>op. paints_in op (\<lambda>y x. in_grid y x \<and> 10 \<le> y))
          (drop (Suc 2) (compose_steps clear rrect sun tb db))"
    unfolding steps_after_2 by (rule tail)
  show "\<not> (in_grid y x \<and> 10 \<le> y)" using xy by simp
qed

lemma display_tail:
  assumes "libm_ok lm"
  shows "list_all (\<lambda>op. paints_in op (\<lambda>y x. in_grid y x \<and> 10 \<le> y))
           (drop 3 (compose_steps fb_clear draw_rounded_rect (draw_sun lm) tb db))"
  by (intro paints_in_compose_tail paints_in_draw_rounded_rect rows_draw_sun assms) simp_all

lemma weatherstar_tail:
  assumes "libm_ok lm"
  shows "list_all (\<lambda>op. paints_in op (\<lambda>y x. in_grid y x \<and> 10 \<le> y))
           (drop 3 (compose_steps fb_clear_ws draw_rounded_rect_ws (draw_sun_ws lm) tb db))"
proof -
  have "paints_in (draw_sun_ws lm 90 (104 + 55) 18) (\<lambda>y x. in_grid y x \<and> 10 \<le> y)"
    using rows_draw_sun [OF assms, of 159 18 "\<lambda>y x. in_grid y x \<and> 10 \<le> y" 90]
    by (simp add: draw_sun_ws_scene [OF assms])
  then show ?thesis
    by (intro paints_in_compose_tail paints_in_draw_rounded_rect_ws) simp_all
qed


text \<open>The status bar: the pixels below its gold rule.\<close>

lemma string_region_right:
  "string_region px py s scale y x \<Longrightarrow> x < px + 6 * scale * int (length s)"
proof (induction s arbitrary: px)
  case Nil
  then show ?case by simp
next
  case (Cons ch s)
  from Cons(2) have c: "glyph_region px py ch scale y x \<or>
      string_region (px + 6 * scale) py s scale y x" by auto
  define L where "L = scale * int (length s)"
  have len: "6 * scale * int (length (ch # s)) = 6 * scale + 6 * L"
    by (simp add: L_def algebra_simps)
  show ?case
  proof (cases "glyph_region px py ch scale y x")
    case True
    then have "0 < scale" "x < px + 5 * scale" by (simp_all add: glyph_region_def)
    moreover have "0 \<le> L" using \<open>0 < scale\<close> by (simp add: L_def)
    ultimately show ?thesis unfolding len by linarith
  next
    case False
    with c have "string_region (px + 6 * scale) py s scale y x" by simp
    then have "x < px + 6 * scale + 6 * scale * int (length s)" by (rule Cons(1))
    then have "x < px + 6 * scale + 6 * L" by (simp add: L_def algebra_simps)
    then show ?thesis unfolding len by linarith
  qed
qed

lemma steps_from_37:
  "drop 37 (compose_steps clear rrect sun tb db) =
   [fb_rect 0 (FB_H - 30) FB_W 30 (rgb 10 15 55),
    fb_hline 0 (FB_W - 1) (FB_H - 30) COL_GOLD,
    fb_hline 0 (FB_W - 1) (FB_H - 30 + 1) COL_GOLD,
    fb_string 20 (FB_H - 30 + 10) db COL_LTGRAY 1,
    fb_string (FB_W - fb_string_width (timestr tb) 2 - 20) (FB_H - 30 + 6) (timestr tb) COL_WHITE 2,
    fb_string_centered (FB_H - 30 + 10) ''Local on the 8s'' COL_GOLD 1]"
  by (simp add: compose_steps_def Let_def)

lemma caption_position:
  "fb_string_centered 380 ''Local on the 8s'' COL_GOLD 1 =
   fb_string 275 380 ''Local on the 8s'' COL_GOLD 1"
  by (simp add: fb_string_centered_def fb_string_width_def int32_def c_div_def)

lemma status_bar_pixels:
  assumes steps: "list_all (\<lambda>op. paints_in op in_grid) (compose_steps clear rrect sun ''08:30 PM'' db)"
    and xy: "in_grid y x" "372 \<le> y"
  shows "pix (compose_with clear rrect sun ''08:30 PM'' db (Fb f)) x y =
         Some (if string_region 275 380 ''Local on the 8s'' 1 y x then COL_GOLD
               else if string_region 536 376 ''8:30 PM'' 2 y x then COL_WHITE
               else if string_region 20 380 db 1 y x then COL_LTGRAY
               else rgb 10 15 55)"
proof -
  let ?ops = "compose_steps clear rrect sun ''08:30 PM'' db"
  have "paints_in (seq (take 37 ?ops)) in_grid"
    by (intro paints_in_seq_list_all list_all_take steps)
  then obtain g where g: "seq (take 37 ?ops) (Fb f) = Fb g"
    unfolding paints_in_def by blast
  have "seq ?ops (Fb f) = seq (drop 37 ?ops) (seq (take 37 ?ops) (Fb f))"
    using seq_append [of "take 37 ?ops" "drop 37 ?ops"] by simp
  then have "compose_with clear rrect sun ''08:30 PM'' db (Fb f) =
        Fb (paint (string_region 275 380 ''Local on the 8s'' 1) (\<lambda>_ _. COL_GOLD)
           (paint (string_region 536 376 ''8:30 PM'' 2) (\<lambda>_ _. COL_WHITE)
           (paint (string_region 20 380 db 1) (\<lambda>_ _. COL_LTGRAY)
           (paint (\<lambda>y' x'. y' = 371 \<and> in_grid y' x' \<and> 0 \<le> x' \<and> x' \<le> 639) (\<lambda>_ _. COL_GOLD)
           (paint (\<lambda>y' x'. y' = 370 \<and> in_grid y' x' \<and> 0 \<le> x' \<and> x' \<le> 639) (\<lambda>_ _. COL_GOLD)
           (paint (in_rect 0 370 640 30) (\<lambda>_ _. rgb 10 15 55) g))))))"
    by (simp add: compose_with_def g steps_from_37 time_0830 caption_position
          fb_rect_paint fb_hline_paint fb_string_paint)
  then show ?thesis
    using xy by (simp add: pix_def paint_def in_rect_def in_grid_def)
qed

lemma time_area_pixel:
  assumes steps: "list_all (\<lambda>op. paints_in op in_grid) (compose_steps clear rrect sun ''08:30 PM'' db)"
    and xy: "536 \<le> x" "x \<le> 619" "376 \<le> y" "y \<le> 389"
  shows "(pix (compose_with clear rrect sun ''08:30 PM'' db (Fb f)) x y = Some COL_WHITE) =
         string_region 536 376 ''8:30 PM'' 2 y x"
proof -
  have g: "in_grid y x" "372 \<le> y" using xy by (simp_all add: in_grid_def)
  have "\<not> string_region 275 380 ''Local on the 8s'' 1 y x"
    using string_region_right [of 275 380 "''Local on the 8s''" 1 y x] xy by auto
  moreover have "COL_LTGRAY \<noteq> COL_WHITE" "rgb 10 15 55 \<noteq> COL_WHITE"
    by (simp_all add: COL_LTGRAY_def COL_WHITE_def rgb_def)
  ultimately show ?thesis
    by (simp add: status_bar_pixels [OF steps g])
qed

lemma time_area_rows:
  assumes steps: "list_all (\<lambda>op. paints_in op in_grid) (compose_steps clear rrect sun ''08:30 PM'' db)"
  shows "map (\<lambda>y. map (\<lambda>x. if pix (compose_with clear rrect sun ''08:30 PM'' db (Fb f)) x y = Some COL_WHITE
                          then CHR ''X'' else CHR ''.'') [536..619]) [376..389] =
         map (\<lambda>y. map (\<lambda>x. if string_region 536 376 ''8:30 PM'' 2 y x then CHR ''X'' else CHR ''.'')
                  [536..619]) [376..389]"
proof (intro map_cong refl)
  fix y x :: int
  assume "y \<in> set [376..389]" "x \<in> set [536..619]"
  then have "536 \<le> x" "x \<le> 619" "376 \<le> y" "y \<le> 389"
    by (simp_all only: set_upto atLeastAtMost_iff)
  then show "(if pix (compose_with clear rrect sun ''08:30 PM'' db (Fb f)) x y = Some COL_WHITE
              then CHR ''X'' else CHR ''.'') =
             (if string_region 536 376 ''8:30 PM'' 2 y x then CHR ''X'' else CHR ''.'')"
    by (simp only: time_area_pixel [OF steps])
qed

text \<open>The pixels of the string \<open>8:30 PM\<close> drawn at (536, 376) at scale 2.\<close>

lemma time_bitmap_0830:
  "map (\<lambda>y. map (\<lambda>x. if string_region 536 376 ''8:30 PM'' 2 y x then CHR ''X'' else CHR ''.'')
          [536..619]) [376..389] =
     [''..XXXXXX..................XXXXXX......XXXXXX................XXXXXXXX....XX......XX..'',
      ''..XXXXXX..................XXXXXX......XXXXXX................XXXXXXXX....XX......XX..'',
      ''XX......XX..............XX......XX..XX......XX..............XX......XX..XXXX..XXXX..'',
      ''XX......XX..............XX......XX..XX......XX..............XX......XX..XXXX..XXXX..'',
      ''XX......XX......XX..............XX..XX....XXXX..............XX......XX..XX..XX..XX..'',
      ''XX......XX......XX..............XX..XX....XXXX..............XX......XX..XX..XX..XX..'',
      ''..XXXXXX....................XXXX....XX..XX..XX..............XXXXXXXX....XX..XX..XX..'',
      ''..XXXXXX....................XXXX....XX..XX..XX..............XXXXXXXX....XX..XX..XX..'',
      ''XX......XX......................XX..XXXX....XX..............XX..........XX......XX..'',
      ''XX......XX......................XX..XXXX....XX..............XX..........XX......XX..'',
      ''XX......XX......XX......XX......XX..XX......XX..............XX..........XX......XX..'',
      ''XX......XX......XX......XX......XX..XX......XX..............XX..........XX......XX..'',
      ''..XXXXXX..................XXXXXX......XXXXXX................XX..........XX......XX..'',
      ''..XXXXXX..................XXXXXX......XXXXXX................XX..........XX......XX..'']"
  by code_simp

lemma status_bar_time:
  "compose_steps clear rrect sun ''08:30 PM'' db ! 41 = fb_string 536 376 ''8:30 PM'' COL_WHITE 2"
  by (simp add: compose_steps_def Let_def timestr_def fb_string_width_def int32_def)

text \<open>
  C9 (as stated). The claim says that pixel (5, 0) of the scene has the header gradient
  colour. Read as (x, y), the order in which every drawing operation takes its
  coordinates, pixel (5, 0) is column 5 of row 0. The gold bar
  \<^verbatim>\<open>fb_rect(0, 0, FB_W, 4, COL_GOLD)\<close> covers rows 0 to 3 over the whole width and nothing is
  drawn over it: pixel (5, 0) is gold, as pixel (0, 0) is, and it is none of the colours
  of the header gradient, which starts on row 4.
\<close>

theorem scene_pixel_5_0_is_gold:
  "pix (compose_display libm_rays ''08:30 PM'' ''Saturday  Jan 01, 2000'' fb_init) 5 0 = Some COL_GOLD \<and>
   pix (compose_display_ws libm_rays ''08:30 PM'' ''Saturday  Jan 01, 2000'' fb_init) 5 0 = Some COL_GOLD \<and>
   pix (compose_display libm_rays ''08:30 PM'' ''Saturday  Jan 01, 2000'' fb_init) 5 0 \<noteq> Some COL_HEADER \<and>
   pix (compose_display libm_rays ''08:30 PM'' ''Saturday  Jan 01, 2000'' fb_init) 5 0 \<noteq> Some (rgb 39 69 169) \<and>
   pix (compose_display libm_rays ''08:30 PM'' ''Saturday  Jan 01, 2000'' fb_init) 5 0 \<noteq> Some (rgb 30 55 140)"
proof -
  have 1: "pix (compose_display libm_rays ''08:30 PM'' ''Saturday  Jan 01, 2000'' fb_init) 5 0 =
           Some COL_GOLD"
    unfolding compose_display_def fb_init_def
    by (rule gold_bar_pixel [OF display_steps display_tail [OF libm_ok_libm_rays]]) simp_all
  have 2: "pix (compose_display_ws libm_rays ''08:30 PM'' ''Saturday  Jan 01, 2000'' fb_init) 5 0 =
           Some COL_GOLD"
    unfolding compose_display_ws_def fb_init_def
    by (rule gold_bar_pixel [OF weatherstar_steps [OF libm_ok_libm_rays]
                               weatherstar_tail [OF libm_ok_libm_rays]]) simp_all
  have "COL_GOLD \<noteq> COL_HEADER" "COL_GOLD \<noteq> rgb 39 69 169" "COL_GOLD \<noteq> rgb 30 55 140"
    by (simp_all add: COL_GOLD_def COL_HEADER_def rgb_def)
  then show ?thesis unfolding 1 2 by simp
qed

text \<open>
  C9 (amended). In the scene composed at the clock string \<open>08:30 PM\<close>: read as (x, y),
  as the drawing operations take their coordinates, the pixels (0, 0) and (5, 0) lie on
  row 0 and are gold; the header gradient starts on row 4, where pixel (5, 4) has the
  header colour. Read as (row, column), the pixel of row 5 and column 0, which is
  \<open>pix \<dots> 0 5\<close>, has the colour rgb(39, 69, 169) that the header gradient gives to row 5.
  The time shown in the status bar is \<open>8:30 PM\<close>, the clock string without its leading
  zero: the white pixels of the area of 84 by 14 pixels at (536, 376) are the pixels of
  these seven characters in the 5 by 7 font at scale 2, drawn below row by row. This holds
  for display.h and for weatherstar.c, on every framebuffer and date string, with a libm
  whose cosines and sines lie in \<open>[-1, 1]\<close>.
\<close>

theorem scene_header_pixels_and_time:
  assumes "libm_ok lm"
  shows "pix (compose_display lm ''08:30 PM'' datebuf (Fb f)) 0 0 = Some COL_GOLD \<and>
         pix (compose_display lm ''08:30 PM'' datebuf (Fb f)) 5 0 = Some COL_GOLD \<and>
         pix (compose_display lm ''08:30 PM'' datebuf (Fb f)) 5 4 = Some COL_HEADER \<and>
         pix (compose_display lm ''08:30 PM'' datebuf (Fb f)) 0 5 = Some (rgb 39 69 169) \<and>
         pix (compose_display_ws lm ''08:30 PM'' datebuf (Fb f)) 0 0 = Some COL_GOLD \<and>
         pix (compose_display_ws lm ''08:30 PM'' datebuf (Fb f)) 5 0 = Some COL_GOLD \<and>
         pix (compose_display_ws lm ''08:30 PM'' datebuf (Fb f)) 5 4 = Some COL_HEADER \<and>
         pix (compose_display_ws lm ''08:30 PM'' datebuf (Fb f)) 0 5 = Some (rgb 39 69 169) \<and>
         grad_color COL_HEADER (rgb 30 55 140) (grad_t 5 4 36) = rgb 39 69 169 \<and>
         timestr ''08:30 PM'' = ''8:30 PM'' \<and>
         compose_steps fb_clear draw_rounded_rect (draw_sun lm) ''08:30 PM'' datebuf ! 41 =
           fb_string 536 376 ''8:30 PM'' COL_WHITE 2 \<and>
         compose_steps fb_clear_ws draw_rounded_rect_ws (draw_sun_ws lm) ''08:30 PM'' datebuf ! 41 =
           fb_string 536 376 ''8:30 PM'' COL_WHITE 2 \<and>
         map (\<lambda>y. map (\<lambda>x. if pix (compose_display lm ''08:30 PM'' datebuf (Fb f)) x y = Some COL_WHITE
                          then CHR ''X'' else CHR ''.'') [536..619]) [376..389] =
       [''..XXXXXX..................XXXXXX......XXXXXX................XXXXXXXX....XX......XX..'',
        ''..XXXXXX..................XXXXXX......XXXXXX................XXXXXXXX....XX......XX..'',
        ''XX......XX..............XX......XX..XX......XX..............XX......XX..XXXX..XXXX..'',
        ''XX......XX..............XX......XX..XX......XX..............XX......XX..XXXX..XXXX..'',
        ''XX......XX......XX..............XX..XX....XXXX..............XX......XX..XX..XX..XX..'',
        ''XX......XX......XX..............XX..XX....XXXX..............XX......XX..XX..XX..XX..'',
        ''..XXXXXX....................XXXX....XX..XX..XX..............XXXXXXXX....XX..XX..XX..'',
        ''..XXXXXX....................XXXX....XX..XX..XX..............XXXXXXXX....XX..XX..XX..'',
        ''XX......XX......................XX..XXXX....XX..............XX..........XX......XX..'',
        ''XX......XX......................XX..XXXX....XX..............XX..........XX......XX..'',
        ''XX......XX......XX......XX......XX..XX......XX..............XX..........XX......XX..'',
        ''XX......XX......XX......XX......XX..XX......XX..............XX..........XX......XX..'',
        ''..XXXXXX..................XXXXXX......XXXXXX................XX..........XX......XX..'',
        ''..XXXXXX..................XXXXXX......XXXXXX................XX..........XX......XX..''] \<and>
         map (\<lambda>y. map (\<lambda>x. if pix (compose_display_ws lm ''08:30 PM'' datebuf (Fb f)) x y = Some COL_WHITE
                          then CHR ''X'' else CHR ''.'') [536..619]) [376..389] =
       [''..XXXXXX..................XXXXXX......XXXXXX................XXXXXXXX....XX......XX..'',
        ''..XXXXXX..................XXXXXX......XXXXXX................XXXXXXXX....XX......XX..'',
        ''XX......XX..............XX......XX..XX......XX..............XX......XX..XXXX..XXXX..'',
        ''XX......XX..............XX......XX..XX......XX..............XX......XX..XXXX..XXXX..'',
        ''XX......XX......XX..............XX..XX....XXXX..............XX......XX..XX..XX..XX..'',
        ''XX......XX......XX..............XX..XX....XXXX..............XX......XX..XX..XX..XX..'',
        ''..XXXXXX....................XXXX....XX..XX..XX..............XXXXXXXX....XX..XX..XX..'',
        ''..XXXXXX....................XXXX....XX..XX..XX..............XXXXXXXX....XX..XX..XX..'',
        ''XX......XX......................XX..XXXX....XX..............XX..........XX......XX..'',
        ''XX......XX......................XX..XXXX....XX..............XX..........XX......XX..'',
        ''XX......XX......XX......XX......XX..XX......XX..............XX..........XX......XX..'',
        ''XX......XX......XX......XX......XX..XX......XX..............XX..........XX......XX..'',
        ''..XXXXXX..................XXXXXX......XXXXXX................XX..........XX......XX..'',
        ''..XXXXXX..................XXXXXX......XXXXXX................XX..........XX......XX..'']"
proof -
  note d = display_steps [of lm "''08:30 PM''" datebuf] display_tail [OF assms, of "''08:30 PM''" datebuf]
  note w = weatherstar_steps [OF assms, of "''08:30 PM''" datebuf]
           weatherstar_tail [OF assms, of "''08:30 PM''" datebuf]
  have top: "grad_color COL_HEADER (rgb 30 55 140) (grad_t 4 4 36) = COL_HEADER" by simp
  have "pix (compose_display lm ''08:30 PM'' datebuf (Fb f)) 0 0 = Some COL_GOLD"
       "pix (compose_display lm ''08:30 PM'' datebuf (Fb f)) 5 0 = Some COL_GOLD"
    unfolding compose_display_def by (rule gold_bar_pixel [OF d]; simp)+
  moreover have "pix (compose_display lm ''08:30 PM'' datebuf (Fb f)) 5 4 = Some COL_HEADER"
    unfolding compose_display_def
    using header_gradient_pixel [OF d, of 5 4 f] by (simp add: top)
  moreover have "pix (compose_display lm ''08:30 PM'' datebuf (Fb f)) 0 5 = Some (rgb 39 69 169)"
    unfolding compose_display_def
    using header_gradient_pixel [OF d, of 0 5 f] by (simp add: header_row5)
  moreover have "pix (compose_display_ws lm ''08:30 PM'' datebuf (Fb f)) 0 0 = Some COL_GOLD"
       "pix (compose_display_ws lm ''08:30 PM'' datebuf (Fb f)) 5 0 = Some COL_GOLD"
    unfolding compose_display_ws_def by (rule gold_bar_pixel [OF w]; simp)+
  moreover have "pix (compose_display_ws lm ''08:30 PM'' datebuf (Fb f)) 5 4 = Some COL_HEADER"
    unfolding compose_display_ws_def
    using header_gradient_pixel [OF w, of 5 4 f] by (simp add: top)
  moreover have "pix (compose_display_ws lm ''08:30 PM'' datebuf (Fb f)) 0 5 = Some (rgb 39 69 169)"
    unfolding compose_display_ws_def
    using header_gradient_pixel [OF w, of 0 5 f] by (simp add: header_row5)
  moreover have "timestr ''08:30 PM'' = ''8:30 PM''" by (simp add: timestr_def)
  moreover have "map (\<lambda>y. map (\<lambda>x. if pix (compose_display lm ''08:30 PM'' datebuf (Fb f)) x y = Some COL_WHITE
                          then CHR ''X'' else CHR ''.'') [536..619]) [376..389] =
       [''..XXXXXX..................XXXXXX......XXXXXX................XXXXXXXX....XX......XX..'',
        ''..XXXXXX..................XXXXXX......XXXXXX................XXXXXXXX....XX......XX..'',
        ''XX......XX..............XX......XX..XX......XX..............XX......XX..XXXX..XXXX..'',
        ''XX......XX..............XX......XX..XX......XX..............XX......XX..XXXX..XXXX..'',
        ''XX......XX......XX..............XX..XX....XXXX..............XX......XX..XX..XX..XX..'',
        ''XX......XX......XX..............XX..XX....XXXX..............XX......XX..XX..XX..XX..'',
        ''..XXXXXX....................XXXX....XX..XX..XX..............XXXXXXXX....XX..XX..XX..'',
        ''..XXXXXX....................XXXX....XX..XX..XX..............XXXXXXXX....XX..XX..XX..'',
        ''XX......XX......................XX..XXXX....XX..............XX..........XX......XX..'',
        ''XX......XX......................XX..XXXX....XX..............XX..........XX......XX..'',
        ''XX......XX......XX......XX......XX..XX......XX..............XX..........XX......XX..'',
        ''XX......XX......XX......XX......XX..XX......XX..............XX..........XX......XX..'',
        ''..XXXXXX..................XXXXXX......XXXXXX................XX..........XX......XX..'',
        ''..XXXXXX..................XXXXXX......XXXXXX................XX..........XX......XX..'']"
    unfolding compose_display_def by (simp only: time_area_rows [OF d(1)] time_bitmap_0830)
  moreover have "map (\<lambda>y. map (\<lambda>x. if pix (compose_display_ws lm ''08:30 PM'' datebuf (Fb f)) x y = Some COL_WHITE
                          then CHR ''X'' else CHR ''.'') [536..619]) [376..389] =
       [''..XXXXXX..................XXXXXX......XXXXXX................XXXXXXXX....XX......XX..'',
        ''..XXXXXX..................XXXXXX......XXXXXX................XXXXXXXX....XX......XX..'',
        ''XX......XX..............XX......XX..XX......XX..............XX......XX..XXXX..XXXX..'',
        ''XX......XX..............XX......XX..XX......XX..............XX......XX..XXXX..XXXX..'',
        ''XX......XX......XX..............XX..XX....XXXX..............XX......XX..XX..XX..XX..'',
        ''XX......XX......XX..............XX..XX....XXXX..............XX......XX..XX..XX..XX..'',
        ''..XXXXXX....................XXXX....XX..XX..XX..............XXXXXXXX....XX..XX..XX..'',
        ''..XXXXXX....................XXXX....XX..XX..XX..............XXXXXXXX....XX..XX..XX..'',
        ''XX......XX......................XX..XXXX....XX..............XX..........XX......XX..'',
        ''XX......XX......................XX..XXXX....XX..............XX..........XX......XX..'',
        ''XX......XX......XX......XX......XX..XX......XX..............XX..........XX......XX..'',
        ''XX......XX......XX......XX......XX..XX......XX..............XX..........XX......XX..'',
        ''..XXXXXX..................XXXXXX......XXXXXX................XX..........XX......XX..'',
        ''..XXXXXX..................XXXXXX......XXXXXX................XX..........XX......XX..'']"
    unfolding compose_display_ws_def by (simp only: time_area_rows [OF w(1)] time_bitmap_0830)
  ultimately show ?thesis by (simp only: status_bar_time header_row5 simp_thms)
qed

theorem scene_header_pixels_and_time_witness:
  "libm_ok libm_rays \<and>
   pix (compose_display_ws libm_rays ''08:30 PM'' ''Saturday  Jan 01, 2000'' fb_init) 0 0 = Some COL_GOLD \<and>
   pix (compose_display_ws libm_rays ''08:30 PM'' ''Saturday  Jan 01, 2000'' fb_init) 5 4 = Some COL_HEADER \<and>
   pix (compose_display libm_rays ''08:30 PM'' ''Saturday  Jan 01, 2000'' fb_init) 0 5 = Some (rgb 39 69 169) \<and>
   map (\<lambda>y. map (\<lambda>x. if pix (compose_display libm_rays ''08:30 PM'' ''Saturday  Jan 01, 2000'' fb_init) x y =
                          Some COL_WHITE
                    then CHR ''X'' else CHR ''.'') [536..619]) [376..389] =
       [''..XXXXXX..................XXXXXX......XXXXXX................XXXXXXXX....XX......XX..'',
        ''..XXXXXX..................XXXXXX......XXXXXX................XXXXXXXX....XX......XX..'',
        ''XX......XX..............XX......XX..XX......XX..............XX......XX..XXXX..XXXX..'',
        ''XX......XX..............XX......XX..XX......XX..............XX......XX..XXXX..XXXX..'',
        ''XX......XX......XX..............XX..XX....XXXX..............XX......XX..XX..XX..XX..'',
        ''XX......XX......XX..............XX..XX....XXXX..............XX......XX..XX..XX..XX..'',
        ''..XXXXXX....................XXXX....XX..XX..XX..............XXXXXXXX....XX..XX..XX..'',
        ''..XXXXXX....................XXXX....XX..XX..XX..............XXXXXXXX....XX..XX..XX..'',
        ''XX......XX......................XX..XXXX....XX..............XX..........XX......XX..'',
        ''XX......XX......................XX..XXXX....XX..............XX..........XX......XX..'',
        ''XX......XX......XX......XX......XX..XX......XX..............XX..........XX......XX..'',
        ''XX......XX......XX......XX......XX..XX......XX..............XX..........XX......XX..'',
        ''..XXXXXX..................XXXXXX......XXXXXX................XX..........XX......XX..'',
        ''..XXXXXX..................XXXXXX......XXXXXX................XX..........XX......XX..'']"
  using scene_header_pixels_and_time [OF libm_ok_libm_rays, of "''Saturday  Jan 01, 2000''" "\<lambda>y x. rgb 0 0 0"]
        libm_ok_libm_rays
  by (simp only: fb_init_def simp_thms)

section \<open>The entry point on a trailing screenshot flag\<close>

text \<open>The argument loop on a trailing \<open>--screenshot\<close>.\<close>

lemma parse_args_trailing:
  "''--screenshot'' \<notin> set pre \<Longrightarrow>
   parse_args (pre @ [''--screenshot'']) sc na = parse_args pre sc na"
  by (induction pre arbitrary: sc na) auto

lemma parse_args_plain:
  "''--screenshot'' \<notin> set pre \<Longrightarrow> ''--help'' \<notin> set pre \<Longrightarrow>
   parse_args pre sc na = Opts sc (na \<or> ''--no-ansi'' \<in> set pre)"
  by (induction pre arbitrary: sc na) auto

lemma main_with_no_screenshot:
  assumes "parse_args args None False = Opts None na" "compose fb_init = Fb g" "ansi g = Some txt"
  shows "main_with compose ansi write_png args =
         Some \<lparr>exit_code = 0, stdout = (if na then [] else txt), stderr = [], png_paths = []\<rparr>"
  using assms by (simp add: main_with_def)

lemma main_with_failed_screenshot:
  assumes "parse_args args None False = Opts (Some path) na" "compose fb_init = Fb g"
    "ansi g = Some txt" "write_png path \<noteq> 0"
  shows "main_with compose ansi write_png args =
         Some \<lparr>exit_code = 1, stdout = (if na then [] else txt), stderr = [], png_paths = [path]\<rparr>"
  using assms by (simp add: main_with_def)

lemma compose_display_init: "\<exists>g. compose_display lm tb db fb_init = Fb g"
proof -
  have "paints_in (compose_display lm tb db) in_grid"
    unfolding compose_display_def compose_with_def [abs_def]
    by (rule paints_in_seq_list_all [OF display_steps])
  then show ?thesis unfolding paints_in_def fb_init_def by blast
qed

lemma compose_display_ws_init:
  "libm_ok lm \<Longrightarrow> \<exists>g. compose_display_ws lm tb db fb_init = Fb g"
proof -
  assume "libm_ok lm"
  then have "paints_in (compose_display_ws lm tb db) in_grid"
    unfolding compose_display_ws_def compose_with_def [abs_def]
    by (intro paints_in_seq_list_all weatherstar_steps)
  then show ?thesis unfolding paints_in_def fb_init_def by blast
qed


lemma main_run:
  assumes "parse_args args None False = Opts None na"
  shows "\<exists>g. compose_display lm tb db fb_init = Fb g \<and>
           main lm tb db wp args =
             Some \<lparr>exit_code = 0, stdout = (if na then [] else ansi_spec g), stderr = [],
                   png_paths = []\<rparr>"
proof -
  obtain g where g: "compose_display lm tb db fb_init = Fb g"
    using compose_display_init by blast
  have "main lm tb db wp args =
          Some \<lparr>exit_code = 0, stdout = (if na then [] else ansi_spec g), stderr = [],
                png_paths = []\<rparr>"
    unfolding main_def using assms g ansi_output_spec by (rule main_with_no_screenshot)
  with g show ?thesis by blast
qed

lemma main_ws_run:
  assumes "parse_args args None False = Opts None na" "libm_ok lm"
  shows "\<exists>g. compose_display_ws lm tb db fb_init = Fb g \<and>
           main_ws lm tb db wp args =
             Some \<lparr>exit_code = 0, stdout = (if na then [] else ansi_spec g), stderr = [],
                   png_paths = []\<rparr>"
proof -
  obtain g where g: "compose_display_ws lm tb db fb_init = Fb g"
    using compose_display_ws_init [OF assms(2)] by blast
  have "Some (ansi_output_ws g) = Some (ansi_spec g)" by (simp add: ansi_output_ws_spec)
  then have "main_ws lm tb db wp args =
          Some \<lparr>exit_code = 0, stdout = (if na then [] else ansi_spec g), stderr = [],
                png_paths = []\<rparr>"
    unfolding main_ws_def using assms(1) g by (intro main_with_no_screenshot)
  with g show ?thesis by blast
qed

text \<open>
  C10 (as stated). The claim is for every command line that ends in \<open>--screenshot\<close>.
  After an earlier \<open>--screenshot out.png\<close> the trailing flag is ignored, but the export to
  \<open>out.png\<close> is attempted, and when \<^verbatim>\<open>write_png\<close> fails the exit code is 1.
\<close>

theorem trailing_screenshot_after_export_exits_1:
  "map_option exit_code
     (main libm_rays ''08:30 PM'' ''Saturday  Jan 01, 2000'' png_fails
        [''--screenshot'', ''out.png'', ''--screenshot'']) = Some 1 \<and>
   map_option png_paths
     (main libm_rays ''08:30 PM'' ''Saturday  Jan 01, 2000'' png_fails
        [''--screenshot'', ''out.png'', ''--screenshot'']) = Some [''out.png''] \<and>
   map_option exit_code
     (main_ws libm_rays ''08:30 PM'' ''Saturday  Jan 01, 2000'' png_fails
        [''--screenshot'', ''out.png'', ''--screenshot'']) = Some 1 \<and>
   map_option png_paths
     (main_ws libm_rays ''08:30 PM'' ''Saturday  Jan 01, 2000'' png_fails
        [''--screenshot'', ''out.png'', ''--screenshot'']) = Some [''out.png'']"
proof -
  have p: "parse_args [''--screenshot'', ''out.png'', ''--screenshot''] None False =
           Opts (Some ''out.png'') False" by simp
  obtain g where g: "compose_display libm_rays ''08:30 PM'' ''Saturday  Jan 01, 2000'' fb_init = Fb g"
    using compose_display_init by blast
  obtain g' where g': "compose_display_ws libm_rays ''08:30 PM'' ''Saturday  Jan 01, 2000'' fb_init = Fb g'"
    using compose_display_ws_init [OF libm_ok_libm_rays] by blast
  have f: "png_fails ''out.png'' \<noteq> 0" by (simp add: png_fails_def)
  have "main libm_rays ''08:30 PM'' ''Saturday  Jan 01, 2000'' png_fails
          [''--screenshot'', ''out.png'', ''--screenshot''] =
        Some \<lparr>exit_code = 1, stdout = (if False then [] else ansi_spec g), stderr = [],
              png_paths = [''out.png'']\<rparr>"
    unfolding main_def using p g ansi_output_spec f by (rule main_with_failed_screenshot)
  moreover have "Some (ansi_output_ws g') = Some (ansi_spec g')" by (simp add: ansi_output_ws_spec)
  then have "main_ws libm_rays ''08:30 PM'' ''Saturday  Jan 01, 2000'' png_fails
          [''--screenshot'', ''out.png'', ''--screenshot''] =
        Some \<lparr>exit_code = 1, stdout = (if False then [] else ansi_spec g'), stderr = [],
              png_paths = [''out.png'']\<rparr>"
    unfolding main_ws_def using p g' f by (intro main_with_failed_screenshot)
  ultimately show ?thesis by simp
qed

text \<open>
  C10 (amended). When \<open>--screenshot\<close> is the final argument and no earlier argument is
  \<open>--screenshot\<close>, the flag is ignored: the run is the run of the command line without it.
  When moreover no argument is \<open>--help\<close>, no export to a file is attempted, \<^verbatim>\<open>main\<close> writes
  nothing to stderr, the exit code is 0, and the terminal image of the composed scene is
  printed unless \<open>--no-ansi\<close> is among the arguments. This holds for main.c, and for
  weatherstar.c with a libm whose cosines and sines lie in \<open>[-1, 1]\<close>.
\<close>

theorem trailing_screenshot_is_ignored:
  assumes "''--screenshot'' \<notin> set pre"
  shows "main lm timebuf datebuf write_png (pre @ [''--screenshot'']) =
           main lm timebuf datebuf write_png pre \<and>
         main_ws lm timebuf datebuf write_png (pre @ [''--screenshot'']) =
           main_ws lm timebuf datebuf write_png pre \<and>
         (''--help'' \<notin> set pre \<longrightarrow>
            (\<exists>g. compose_display lm timebuf datebuf fb_init = Fb g \<and>
                 main lm timebuf datebuf write_png (pre @ [''--screenshot'']) =
                   Some \<lparr>exit_code = 0,
                         stdout = (if ''--no-ansi'' \<in> set pre then [] else ansi_spec g),
                         stderr = [], png_paths = []\<rparr>) \<and>
            (libm_ok lm \<longrightarrow>
               (\<exists>g. compose_display_ws lm timebuf datebuf fb_init = Fb g \<and>
                    main_ws lm timebuf datebuf write_png (pre @ [''--screenshot'']) =
                      Some \<lparr>exit_code = 0,
                            stdout = (if ''--no-ansi'' \<in> set pre then [] else ansi_spec g),
                            stderr = [], png_paths = []\<rparr>)))"
proof (intro conjI impI)
  have t: "parse_args (pre @ [''--screenshot'']) None False = parse_args pre None False"
    using assms by (rule parse_args_trailing)
  show "main lm timebuf datebuf write_png (pre @ [''--screenshot'']) =
        main lm timebuf datebuf write_png pre"
    by (simp add: main_def main_with_def t)
  show "main_ws lm timebuf datebuf write_png (pre @ [''--screenshot'']) =
        main_ws lm timebuf datebuf write_png pre"
    by (simp add: main_ws_def main_with_def t)
  assume h: "''--help'' \<notin> set pre"
  have p: "parse_args (pre @ [''--screenshot'']) None False =
           Opts None (''--no-ansi'' \<in> set pre)"
    using parse_args_plain [OF assms h, of None False] by (simp add: t)
  show "\<exists>g. compose_display lm timebuf datebuf fb_init = Fb g \<and>
                 main lm timebuf datebuf write_png (pre @ [''--screenshot'']) =
                   Some \<lparr>exit_code = 0,
                         stdout = (if ''--no-ansi'' \<in> set pre then [] else ansi_spec g),
                         stderr = [], png_paths = []\<rparr>"
    using p by (rule main_run)
  assume "libm_ok lm"
  with p show "\<exists>g. compose_display_ws lm timebuf datebuf fb_init = Fb g \<and>
                    main_ws lm timebuf datebuf write_png (pre @ [''--screenshot'']) =
                      Some \<lparr>exit_code = 0,
                            stdout = (if ''--no-ansi'' \<in> set pre then [] else ansi_spec g),
                            stderr = [], png_paths = []\<rparr>"
    by (rule main_ws_run)
qed

theorem trailing_screenshot_is_ignored_witness:
  "''--screenshot'' \<notin> set [''--no-ansi''] \<and> ''--help'' \<notin> set [''--no-ansi''] \<and>
   libm_ok libm_rays \<and>
   main libm_rays ''08:30 PM'' ''Saturday  Jan 01, 2000'' png_ok [''--no-ansi'', ''--screenshot''] =
     Some \<lparr>exit_code = 0, stdout = [], stderr = [], png_paths = []\<rparr> \<and>
   main_ws libm_rays ''08:30 PM'' ''Saturday  Jan 01, 2000'' png_ok [''--no-ansi'', ''--screenshot''] =
     Some \<lparr>exit_code = 0, stdout = [], stderr = [], png_paths = []\<rparr> \<and>
   map_option exit_code
     (main libm_rays ''08:30 PM'' ''Saturday  Jan 01, 2000'' png_ok [''--screenshot'']) = Some 0 \<and>
   map_option png_paths
     (main_ws libm_rays ''08:30 PM'' ''Saturday  Jan 01, 2000'' png_ok [''--screenshot'']) = Some []"
proof -
  have n: "''--screenshot'' \<notin> set [''--no-ansi'']" "''--help'' \<notin> set [''--no-ansi'']"
    "''--screenshot'' \<notin> set ([] :: string list)" "''--help'' \<notin> set ([] :: string list)"
    by simp_all
  note a = trailing_screenshot_is_ignored
          [OF n(1), of libm_rays "''08:30 PM''" "''Saturday  Jan 01, 2000''" png_ok]
  note b = trailing_screenshot_is_ignored
          [OF n(3), of libm_rays "''08:30 PM''" "''Saturday  Jan 01, 2000''" png_ok]
  from a n(2) libm_ok_libm_rays
  have 1: "main libm_rays ''08:30 PM'' ''Saturday  Jan 01, 2000'' png_ok [''--no-ansi'', ''--screenshot''] =
             Some \<lparr>exit_code = 0, stdout = [], stderr = [], png_paths = []\<rparr>"
    and 2: "main_ws libm_rays ''08:30 PM'' ''Saturday  Jan 01, 2000'' png_ok [''--no-ansi'', ''--screenshot''] =
             Some \<lparr>exit_code = 0, stdout = [], stderr = [], png_paths = []\<rparr>"
    by fastforce+
  from b n(4) libm_ok_libm_rays
  have 3: "map_option exit_code
     (main libm_rays ''08:30 PM'' ''Saturday  Jan 01, 2000'' png_ok [''--screenshot'']) = Some 0"
    and 4: "map_option png_paths
     (main_ws libm_rays ''08:30 PM'' ''Saturday  Jan 01, 2000'' png_ok [''--screenshot'']) = Some []"
    by fastforce+
  show ?thesis using n(1,2) libm_ok_libm_rays 1 2 3 4 by (simp only: simp_thms)
qed

end
